theory Spec2Isabelle
  imports Complex_Main
begin

section \<open>The environment of the streaming services\<close>

text \<open>
  The services of \<^verbatim>\<open>RaspberryPi/Services\<close> act on the operating system through shell
  commands, files, the aiohttp and websockets libraries and the clock.  The model makes
  every such call explicit: a call appends one \<open>action\<close> to the \<open>trace\<close> of the
  \<open>world\<close>, and what the call returns (or raises) is read from an oracle, the \<open>env\<close>,
  at the position the call has in the trace.  Theorems quantify over the oracle, so they
  hold for every behaviour of the operating system.

  Exceptions are values: a function that can raise returns \<open>Some msg\<close> (or \<open>Inl msg\<close>)
  for \<^verbatim>\<open>Exception(msg)\<close>, together with the state as it was when the exception left
  the function.

  The services are coroutines of one asyncio event loop: a coroutine runs without
  interruption up to an \<^verbatim>\<open>await\<close> that hands control to the loop.  The functions of the
  model run one coroutine from its call to its return.  What other tasks do in between
  is modelled in two places: a request that is served while \<^verbatim>\<open>start_ap\<close> is suspended
  (\<open>start_streaming_meanwhile\<close>), and a monitor task that cancels itself when it stops
  the stream (\<open>monitor_stop\<close>).  There \<^verbatim>\<open>asyncio.CancelledError\<close> appears, which from
  Python 3.8 on is a \<^verbatim>\<open>BaseException\<close> and passes every \<^verbatim>\<open>except Exception\<close> handler.
\<close>

datatype StreamState = IDLE | PREPARING | READY | ACTIVE | STOPPING | ERROR

datatype APState = CLIENT_MODE | AP_STARTING | AP_READY | AP_STOPPING | AP_FAILED

datatype site = VideoSite | PortalSite

datatype task = TimeoutTask | ClientCheckTask | BroadcastTask

datatype action =
    Cmd string                \<comment> \<open>a shell command run by \<^verbatim>\<open>_run_command_async\<close>\<close>
  | Sleep                     \<comment> \<open>\<^verbatim>\<open>await asyncio.sleep(..)\<close>\<close>
  | Exists string             \<comment> \<open>\<^verbatim>\<open>os.path.exists(path)\<close>\<close>
  | ReadFile string           \<comment> \<open>\<^verbatim>\<open>open(path, 'r')\<close> and \<^verbatim>\<open>read()\<close>\<close>
  | WriteFile string          \<comment> \<open>\<^verbatim>\<open>open(path, 'w')\<close> and \<^verbatim>\<open>write(..)\<close>\<close>
  | RemoveFile string         \<comment> \<open>\<^verbatim>\<open>os.remove(path)\<close>\<close>
  | GenPassword               \<comment> \<open>\<^verbatim>\<open>_generate_password()\<close>\<close>
  | Now                       \<comment> \<open>\<^verbatim>\<open>time.time()\<close>\<close>
  | CameraStart               \<comment> \<open>\<^verbatim>\<open>camera_service.start()\<close>\<close>
  | RunnerSetup site          \<comment> \<open>\<^verbatim>\<open>AppRunner.setup()\<close>\<close>
  | SiteStart site            \<comment> \<open>\<^verbatim>\<open>TCPSite.start()\<close>\<close>
  | SiteStop site             \<comment> \<open>\<^verbatim>\<open>TCPSite.stop()\<close>\<close>
  | RunnerCleanup site        \<comment> \<open>\<^verbatim>\<open>AppRunner.cleanup()\<close>\<close>
  | WriteEof                  \<comment> \<open>\<^verbatim>\<open>client.write_eof()\<close> of a video client\<close>
  | OpenInputStream           \<comment> \<open>\<^verbatim>\<open>sd.InputStream(..)\<close>\<close>
  | StartInputStream          \<comment> \<open>\<^verbatim>\<open>_audio_stream.start()\<close>\<close>
  | StopInputStream           \<comment> \<open>\<^verbatim>\<open>_audio_stream.stop()\<close> and \<^verbatim>\<open>close()\<close>\<close>
  | WsServe                   \<comment> \<open>\<^verbatim>\<open>ws_serve(..)\<close>\<close>
  | WsClose                   \<comment> \<open>\<^verbatim>\<open>_server.close()\<close> and \<^verbatim>\<open>wait_closed()\<close>\<close>
  | ClientClose               \<comment> \<open>\<^verbatim>\<open>client.close()\<close> of an audio client\<close>
  | CreateTask task           \<comment> \<open>\<^verbatim>\<open>asyncio.create_task(..)\<close>\<close>
  | CancelTask task           \<comment> \<open>\<^verbatim>\<open>task.cancel()\<close>\<close>
  | Notify StreamState        \<comment> \<open>the registered \<^verbatim>\<open>_on_state_change\<close> callback\<close>
  | Transition StreamState StreamState
      \<comment> \<open>the log line \<^verbatim>\<open>Stream state: old -> new\<close> of the state setter\<close>
  | Call string
      \<comment> \<open>entry into the named method; a marker of the model, not a call to the system\<close>

datatype proc_outcome =
    Exited int string string  \<comment> \<open>return code, stdout, stderr\<close>
  | TimedOut                  \<comment> \<open>\<^verbatim>\<open>asyncio.TimeoutError\<close> after 30 seconds\<close>
  | SpawnError string         \<comment> \<open>any other exception of the subprocess call\<close>

text \<open>The settings of \<^verbatim>\<open>Setting/settings.py\<close> that the modelled code reads.\<close>

record settings =
  STREAM_AP_SSID :: string
  STREAM_AP_PASSWORD :: string
  STREAM_AP_IP :: string
  STREAM_TIMEOUT :: int
  STREAM_CLIENT_TIMEOUT :: int
  STREAM_WIFI_RESTORE_RETRIES :: int

definition default_settings :: settings where
  "default_settings =
     \<lparr> STREAM_AP_SSID = ''CalmOrb-LIVE'',
       STREAM_AP_PASSWORD = ''calmorb123'',
       STREAM_AP_IP = ''192.168.4.1'',
       STREAM_TIMEOUT = 7200,
       STREAM_CLIENT_TIMEOUT = 3600,
       STREAM_WIFI_RESTORE_RETRIES = 3 \<rparr>"

text \<open>
  The oracle.  Each field answers one kind of call; the \<open>nat\<close> argument is the number
  of actions performed before the call.
\<close>

record env =
  cfg :: settings
  proc :: "string \<Rightarrow> nat \<Rightarrow> proc_outcome"     \<comment> \<open>how a shell command ends\<close>
  fault :: "action \<Rightarrow> nat \<Rightarrow> string option"    \<comment> \<open>the exception a call raises, if any\<close>
  answer :: "action \<Rightarrow> nat \<Rightarrow> bool"            \<comment> \<open>the result of a call that returns a bool\<close>
  file_text :: "string \<Rightarrow> nat \<Rightarrow> string"       \<comment> \<open>the content of a file when it is read\<close>
  clock :: "nat \<Rightarrow> real"                        \<comment> \<open>the value of \<^verbatim>\<open>time.time()\<close>\<close>
  random_password :: "nat \<Rightarrow> string"           \<comment> \<open>the password \<^verbatim>\<open>secrets\<close> draws\<close>
  yields :: "action \<Rightarrow> nat \<Rightarrow> bool"
    \<comment> \<open>whether an awaited library call hands control to the event loop\<close>

record world =
  trace :: "action list"

definition now :: "world \<Rightarrow> nat" where
  "now w = length (trace w)"

definition perform :: "action \<Rightarrow> world \<Rightarrow> world" where
  "perform a w = w\<lparr>trace := trace w @ [a]\<rparr>"

text \<open>A call that returns nothing of interest: it either raises or completes.\<close>

definition attempt :: "env \<Rightarrow> action \<Rightarrow> world \<Rightarrow> string option \<times> world" where
  "attempt e a w = (fault e a (now w), perform a w)"

definition sleep :: "env \<Rightarrow> world \<Rightarrow> string option \<times> world" where
  "sleep e w = attempt e Sleep w"

text \<open>
  \<^verbatim>\<open>str.strip()\<close> of a command's output is truthy when the output has a character that
  is not white space.  Outputs are taken to be ASCII text.
\<close>

definition is_space :: "char \<Rightarrow> bool" where
  "is_space c = (of_char c \<in> {9, 10, 11, 12, 13, 28, 29, 30, 31, 32 :: nat})"

definition blank :: "string \<Rightarrow> bool" where
  "blank s = list_all is_space s"

section \<open>The access point manager (\<^verbatim>\<open>ap_manager.py\<close>)\<close>

record WiFiCredentials =
  ssid :: string
  password :: string
  key_mgmt :: string

record APManager =
  state :: APState
  saved_credentials :: "WiFiCredentials option"
  ap_password :: string
  ap_ssid :: string
  ap_ip :: string

definition WPA_SUPPLICANT_CONF :: string where
  "WPA_SUPPLICANT_CONF = ''/etc/wpa_supplicant/wpa_supplicant.conf''"

definition HOSTAPD_CONF :: string where
  "HOSTAPD_CONF = ''/tmp/hostapd_stream.conf''"

definition DNSMASQ_CONF :: string where
  "DNSMASQ_CONF = ''/tmp/dnsmasq_stream.conf''"

definition WIFI_BACKUP_FILE :: string where
  "WIFI_BACKUP_FILE = ''/tmp/wifi_backup.conf''"

text \<open>\<^verbatim>\<open>APManager.__init__\<close>\<close>

definition new_ap_manager :: "env \<Rightarrow> APManager" where
  "new_ap_manager e =
     \<lparr> state = CLIENT_MODE, saved_credentials = None, ap_password = [],
       ap_ssid = STREAM_AP_SSID (cfg e), ap_ip = STREAM_AP_IP (cfg e) \<rparr>"

text \<open>
  \<^verbatim>\<open>_run_command_async(cmd, check)\<close>: every exception of the subprocess call is caught
  and turned into a failure, so the method itself never raises.
\<close>

definition run_command_async ::
  "env \<Rightarrow> string \<Rightarrow> bool \<Rightarrow> world \<Rightarrow> (bool \<times> string) \<times> world" where
  "run_command_async e cmd check w =
     ((case proc e cmd (now w) of
         Exited rc out err \<Rightarrow> if check \<and> rc \<noteq> 0 then (False, err) else (True, out)
       | TimedOut \<Rightarrow> (False, ''Command timed out'')
       | SpawnError msg \<Rightarrow> (False, msg)),
      perform (Cmd cmd) w)"

text \<open>
  A run of awaited statements whose results the caller drops: commands (with their
  \<^verbatim>\<open>check\<close> flag) and sleeps.  The run stops at the first statement that raises.
\<close>

datatype step = Run string bool | Nap

fun step_action :: "step \<Rightarrow> action" where
  "step_action (Run cmd check) = Cmd cmd"
| "step_action Nap = Sleep"

fun run_steps :: "env \<Rightarrow> step list \<Rightarrow> world \<Rightarrow> string option \<times> world" where
  "run_steps e [] w = (None, w)"
| "run_steps e (Run cmd check # ss) w = run_steps e ss (snd (run_command_async e cmd check w))"
| "run_steps e (Nap # ss) w =
     (case sleep e w of
        (Some msg, w') \<Rightarrow> (Some msg, w')
      | (None, w') \<Rightarrow> run_steps e ss w')"

subsection \<open>\<^verbatim>\<open>save_wifi_credentials\<close>\<close>

text \<open>
  \<^verbatim>\<open>re.search(key + r'="([^"]+)"', content)\<close>: the leftmost place where the key, an equals
  sign and a quote are followed by a non-empty run of characters other than a quote and
  then a quote; the result is the run.
\<close>

definition quoted_at :: "string \<Rightarrow> string \<Rightarrow> string option" where
  "quoted_at key s =
     (let opening = key @ [CHR ''='', CHR 0x22];
          rest = drop (length opening) s;
          run = takeWhile (\<lambda>c. c \<noteq> CHR 0x22) rest
      in if take (length opening) s = opening \<and> run \<noteq> [] \<and> length run < length rest
         then Some run else None)"

fun search_quoted :: "string \<Rightarrow> string \<Rightarrow> string option" where
  "search_quoted key [] = None"
| "search_quoted key (c # cs) =
     (case quoted_at key (c # cs) of
        Some v \<Rightarrow> Some v
      | None \<Rightarrow> search_quoted key cs)"

definition save_wifi_credentials :: "env \<Rightarrow> world \<Rightarrow> APManager \<Rightarrow> bool \<times> world \<times> APManager" where
  "save_wifi_credentials e w ap =
     (let w1 = perform (Exists WPA_SUPPLICANT_CONF) w in
      if \<not> answer e (Exists WPA_SUPPLICANT_CONF) (now w) then (True, w1, ap)
      else
        (case attempt e (ReadFile WPA_SUPPLICANT_CONF) w1 of
           (Some msg, w2) \<Rightarrow> (False, w2, ap)
         | (None, w2) \<Rightarrow>
             (let content = file_text e WPA_SUPPLICANT_CONF (now w1) in
              case search_quoted ''ssid'' content of
                None \<Rightarrow> (True, w2, ap)
              | Some found_ssid \<Rightarrow>
                  (let found_password =
                         (case search_quoted ''psk'' content of Some p \<Rightarrow> p | None \<Rightarrow> []);
                       ap1 = ap\<lparr>saved_credentials :=
                                 Some \<lparr>ssid = found_ssid, password = found_password,
                                       key_mgmt = ''WPA-PSK''\<rparr>\<rparr>
                   in case attempt e (WriteFile WIFI_BACKUP_FILE) w2 of
                        (Some msg, w3) \<Rightarrow> (False, w3, ap1)
                      | (None, w3) \<Rightarrow> (True, w3, ap1)))))"

subsection \<open>\<^verbatim>\<open>restore_wifi\<close>\<close>

definition verify_cmd :: string where
  "verify_cmd = ''ip addr show wlan0 | grep 'inet '' @ [CHR 0x27]"

definition reattach_cmd :: string where
  "reattach_cmd = ''sudo nmcli device set wlan0 managed yes''"

definition link_down_cmd :: string where
  "link_down_cmd = ''sudo ip link set wlan0 down''"

definition attempt_steps :: "step list" where
  "attempt_steps =
     [Run reattach_cmd False, Nap,
      Run ''sudo ip addr flush dev wlan0'' False, Nap,
      Run ''sudo systemctl start wpa_supplicant'' True, Nap,
      Run ''sudo dhclient wlan0'' False, Nap]"

definition fallback_steps :: "step list" where
  "fallback_steps =
     [Run link_down_cmd True, Nap,
      Run ''sudo ip link set wlan0 up'' True, Nap,
      Run ''sudo systemctl restart wpa_supplicant'' True, Nap,
      Run ''sudo dhclient wlan0'' False, Nap]"

datatype attempt_result = Connected | NoAddress | AttemptError string

text \<open>The body of the \<^verbatim>\<open>for attempt in range(retries)\<close> loop, with its handler.\<close>

definition restore_attempt :: "env \<Rightarrow> world \<Rightarrow> attempt_result \<times> world" where
  "restore_attempt e w =
     (case run_steps e attempt_steps w of
        (Some msg, w1) \<Rightarrow> (AttemptError msg, w1)
      | (None, w1) \<Rightarrow>
          (case run_command_async e verify_cmd False w1 of
             ((success, output), w2) \<Rightarrow>
               if success \<and> \<not> blank output then (Connected, w2)
               else (case sleep e w2 of
                       (Some msg, w3) \<Rightarrow> (AttemptError msg, w3)
                     | (None, w3) \<Rightarrow> (NoAddress, w3))))"

text \<open>The loop: \<open>True\<close> when an attempt connected (the method returns from inside the loop).\<close>

fun restore_loop :: "env \<Rightarrow> nat \<Rightarrow> world \<Rightarrow> bool \<times> world" where
  "restore_loop e 0 w = (False, w)"
| "restore_loop e (Suc n) w =
     (case restore_attempt e w of
        (Connected, w') \<Rightarrow> (True, w')
      | (NoAddress, w') \<Rightarrow> restore_loop e n w'
      | (AttemptError msg, w') \<Rightarrow> restore_loop e n w')"

text \<open>The \<^verbatim>\<open>try\<close> block of the final fallback: \<open>Some msg\<close> when it raises.\<close>

definition hard_fallback :: "env \<Rightarrow> world \<Rightarrow> string option \<times> world" where
  "hard_fallback e w = run_steps e fallback_steps w"

definition restore_wifi :: "env \<Rightarrow> world \<Rightarrow> APManager \<Rightarrow> bool \<times> world \<times> APManager" where
  "restore_wifi e w ap =
     (case restore_loop e (nat (STREAM_WIFI_RESTORE_RETRIES (cfg e)))
             (perform (Call ''restore_wifi'') w) of
        (True, w1) \<Rightarrow> (True, w1, ap\<lparr>state := CLIENT_MODE\<rparr>)
      | (False, w1) \<Rightarrow>
          (case hard_fallback e w1 of
             (None, w2) \<Rightarrow> (True, w2, ap\<lparr>state := CLIENT_MODE\<rparr>)
           | (Some msg, w2) \<Rightarrow> (False, w2, ap\<lparr>state := AP_FAILED\<rparr>)))"

text \<open>
  The method up to its last \<^verbatim>\<open>await\<close>: the value it is going to return, and the world.
  What is left to do then is the assignment of \<open>CLIENT_MODE\<close> (or of \<open>AP_FAILED\<close> when
  the fallback raised) and the return.
\<close>

definition restore_wifi_run :: "env \<Rightarrow> world \<Rightarrow> bool \<times> world" where
  "restore_wifi_run e w =
     (case restore_loop e (nat (STREAM_WIFI_RESTORE_RETRIES (cfg e)))
             (perform (Call ''restore_wifi'') w) of
        (True, w1) \<Rightarrow> (True, w1)
      | (False, w1) \<Rightarrow>
          (case hard_fallback e w1 of
             (None, w2) \<Rightarrow> (True, w2)
           | (Some msg, w2) \<Rightarrow> (False, w2)))"

subsection \<open>\<^verbatim>\<open>start_ap\<close>\<close>

definition create_hostapd_config :: "env \<Rightarrow> world \<Rightarrow> APManager \<Rightarrow> bool \<times> world \<times> APManager" where
  "create_hostapd_config e w ap =
     (let (w1, ap1) =
            (if STREAM_AP_PASSWORD (cfg e) \<noteq> []
             then (w, ap\<lparr>ap_password := STREAM_AP_PASSWORD (cfg e)\<rparr>)
             else (perform GenPassword w, ap\<lparr>ap_password := random_password e (now w)\<rparr>))
      in case attempt e (WriteFile HOSTAPD_CONF) w1 of
           (Some msg, w2) \<Rightarrow> (False, w2, ap1)
         | (None, w2) \<Rightarrow> (True, w2, ap1))"

definition create_dnsmasq_config :: "env \<Rightarrow> world \<Rightarrow> bool \<times> world" where
  "create_dnsmasq_config e w =
     (case attempt e (WriteFile DNSMASQ_CONF) w of
        (Some msg, w1) \<Rightarrow> (False, w1)
      | (None, w1) \<Rightarrow> (True, w1))"

definition hostapd_cmd :: string where
  "hostapd_cmd = ''sudo hostapd -B '' @ HOSTAPD_CONF"

definition dnsmasq_cmd :: string where
  "dnsmasq_cmd = ''sudo dnsmasq -C '' @ DNSMASQ_CONF"

definition pgrep_cmd :: string where
  "pgrep_cmd = ''pgrep hostapd''"

definition prepare_steps :: "APManager \<Rightarrow> step list" where
  "prepare_steps ap =
     [Run ''sudo nmcli device set wlan0 managed no'' True, Nap,
      Run ''sudo systemctl stop wpa_supplicant'' False,
      Run ''sudo killall wpa_supplicant'' False, Nap,
      Run ''sudo killall hostapd'' False,
      Run ''sudo killall dnsmasq'' False, Nap,
      Run ''sudo ip addr flush dev wlan0'' True,
      Run (''sudo ip addr add '' @ ap_ip ap @ ''/24 dev wlan0'') True,
      Run ''sudo ip link set wlan0 up'' True, Nap]"

text \<open>The \<^verbatim>\<open>try\<close> block of \<^verbatim>\<open>start_ap\<close>: \<open>Some msg\<close> when it raises.\<close>

definition start_ap_body :: "env \<Rightarrow> world \<Rightarrow> APManager \<Rightarrow> string option \<times> world \<times> APManager" where
  "start_ap_body e w ap =
     (case create_hostapd_config e w ap of
        (False, w1, ap1) \<Rightarrow> (Some ''Failed to create hostapd config'', w1, ap1)
      | (True, w1, ap1) \<Rightarrow>
     (case create_dnsmasq_config e w1 of
        (False, w2) \<Rightarrow> (Some ''Failed to create dnsmasq config'', w2, ap1)
      | (True, w2) \<Rightarrow>
     (case run_steps e (prepare_steps ap1) w2 of
        (Some msg, w3) \<Rightarrow> (Some msg, w3, ap1)
      | (None, w3) \<Rightarrow>
     (case run_command_async e hostapd_cmd True w3 of
        ((False, output), w4) \<Rightarrow> (Some (''Failed to start hostapd: '' @ output), w4, ap1)
      | ((True, output), w4) \<Rightarrow>
     (case sleep e w4 of
        (Some msg, w5) \<Rightarrow> (Some msg, w5, ap1)
      | (None, w5) \<Rightarrow>
     (case run_command_async e dnsmasq_cmd True w5 of
        ((False, output), w6) \<Rightarrow> (Some (''Failed to start dnsmasq: '' @ output), w6, ap1)
      | ((True, output), w6) \<Rightarrow>
     (case sleep e w6 of
        (Some msg, w7) \<Rightarrow> (Some msg, w7, ap1)
      | (None, w7) \<Rightarrow>
     (case run_command_async e pgrep_cmd False w7 of
        ((success, output), w8) \<Rightarrow>
          if \<not> success \<or> blank output then (Some ''hostapd is not running'', w8, ap1)
          else (None, w8, ap1)))))))))"

definition start_ap :: "env \<Rightarrow> world \<Rightarrow> APManager \<Rightarrow> bool \<times> world \<times> APManager" where
  "start_ap e w ap =
     (if state ap = AP_READY then (True, w, ap)
      else
        (case start_ap_body e w (ap\<lparr>state := AP_STARTING\<rparr>) of
           (None, w1, ap1) \<Rightarrow> (True, w1, ap1\<lparr>state := AP_READY\<rparr>)
         | (Some msg, w1, ap1) \<Rightarrow>
             (case restore_wifi e w1 (ap1\<lparr>state := AP_FAILED\<rparr>) of
                (restored, w2, ap2) \<Rightarrow> (False, w2, ap2))))"

text \<open>
  \<^verbatim>\<open>start_ap\<close>, called in a state other than \<open>AP_READY\<close>, up to its last \<^verbatim>\<open>await\<close>: the
  value it is going to return with the state it is going to assign, the world, and the
  manager as it is while that \<^verbatim>\<open>await\<close> is pending.  On the failure path the \<^verbatim>\<open>await\<close>
  is inside \<^verbatim>\<open>restore_wifi\<close>, which the handler called after it assigned \<open>AP_FAILED\<close>:
  this is the state in which a task that runs meanwhile finds the manager.
\<close>

definition start_ap_run ::
  "env \<Rightarrow> world \<Rightarrow> APManager \<Rightarrow> (bool \<times> APState) \<times> world \<times> APManager" where
  "start_ap_run e w ap =
     (case start_ap_body e w (ap\<lparr>state := AP_STARTING\<rparr>) of
        (None, w1, ap1) \<Rightarrow> ((True, AP_READY), w1, ap1)
      | (Some msg, w1, ap1) \<Rightarrow>
          (case restore_wifi_run e w1 of
             (restored, w2) \<Rightarrow>
               ((False, if restored then CLIENT_MODE else AP_FAILED), w2,
                ap1\<lparr>state := AP_FAILED\<rparr>)))"

subsection \<open>\<^verbatim>\<open>stop_ap\<close>\<close>

text \<open>The loop over the two configuration files: \<open>Some msg\<close> when \<^verbatim>\<open>os.remove\<close> raises.\<close>

fun remove_files :: "env \<Rightarrow> string list \<Rightarrow> world \<Rightarrow> string option \<times> world" where
  "remove_files e [] w = (None, w)"
| "remove_files e (p # ps) w =
     (let w1 = perform (Exists p) w in
      if answer e (Exists p) (now w)
      then (case attempt e (RemoveFile p) w1 of
              (Some msg, w2) \<Rightarrow> (Some msg, w2)
            | (None, w2) \<Rightarrow> remove_files e ps w2)
      else remove_files e ps w1)"

definition stop_ap_body :: "env \<Rightarrow> world \<Rightarrow> string option \<times> world" where
  "stop_ap_body e w =
     (case run_steps e [Run ''sudo killall hostapd'' False,
                        Run ''sudo killall dnsmasq'' False, Nap] w of
        (Some msg, w1) \<Rightarrow> (Some msg, w1)
      | (None, w1) \<Rightarrow> remove_files e [HOSTAPD_CONF, DNSMASQ_CONF] w1)"

definition stop_ap :: "env \<Rightarrow> world \<Rightarrow> APManager \<Rightarrow> bool \<times> world \<times> APManager" where
  "stop_ap e w ap =
     (if state ap = CLIENT_MODE then (True, w, ap)
      else
        (case stop_ap_body e w of
           (None, w1) \<Rightarrow> (True, w1, ap\<lparr>state := AP_STOPPING\<rparr>)
         | (Some msg, w1) \<Rightarrow> (False, w1, ap\<lparr>state := AP_STOPPING\<rparr>)))"

definition is_ap_active :: "APManager \<Rightarrow> bool" where
  "is_ap_active ap = (state ap = AP_READY)"


section \<open>The broadcasters and the captive-portal responder\<close>

text \<open>
  The camera service is shared with the rest of the program; the streaming code reads
  its \<^verbatim>\<open>is_running\<close> flag and calls \<^verbatim>\<open>start()\<close>, which sets the flag when it succeeds.
\<close>

record Camera =
  camera_is_running :: bool

subsection \<open>\<^verbatim>\<open>mjpeg_server.py\<close>\<close>

text \<open>
  The fields \<^verbatim>\<open>_app\<close>, \<^verbatim>\<open>_runner\<close> and \<^verbatim>\<open>_site\<close> are modelled by whether they are set;
  \<^verbatim>\<open>_clients\<close> by its size.
\<close>

record MJPEGServer =
  video_is_running :: bool
  video_has_camera :: bool
  video_app :: bool
  video_runner :: bool
  video_site :: bool
  video_clients :: nat

definition new_mjpeg_server :: MJPEGServer where
  "new_mjpeg_server =
     \<lparr> video_is_running = False, video_has_camera = False, video_app = False,
       video_runner = False, video_site = False, video_clients = 0 \<rparr>"

text \<open>
  Closing the clients: each call stands in \<^verbatim>\<open>try: .. except Exception: pass\<close>, so a
  fault changes nothing.
\<close>

fun close_clients :: "action \<Rightarrow> nat \<Rightarrow> world \<Rightarrow> world" where
  "close_clients a 0 w = w"
| "close_clients a (Suc n) w = close_clients a n (perform a w)"

text \<open>\<^verbatim>\<open>MJPEGServer.stop\<close>: the calls that stop the site and the runner are not guarded.\<close>

definition mjpeg_stop :: "env \<Rightarrow> world \<Rightarrow> MJPEGServer \<Rightarrow> string option \<times> world \<times> MJPEGServer" where
  "mjpeg_stop e w v =
     (let v1 = v\<lparr>video_is_running := False\<rparr>;
          w1 = close_clients WriteEof (video_clients v1) w;
          v2 = v1\<lparr>video_clients := 0\<rparr>
      in case (if video_site v2 then attempt e (SiteStop VideoSite) w1 else (None, w1)) of
           (Some msg, w2) \<Rightarrow> (Some msg, w2, v2)
         | (None, w2) \<Rightarrow>
             (let v3 = v2\<lparr>video_site := False\<rparr>
              in case (if video_runner v3 then attempt e (RunnerCleanup VideoSite) w2
                       else (None, w2)) of
                   (Some msg, w3) \<Rightarrow> (Some msg, w3, v3)
                 | (None, w3) \<Rightarrow> (None, w3, v3\<lparr>video_runner := False, video_app := False\<rparr>)))"

text \<open>
  \<^verbatim>\<open>MJPEGServer.start\<close>: \<open>Inr b\<close> when it returns \<open>b\<close>, \<open>Inl msg\<close> when the \<^verbatim>\<open>stop()\<close> of
  its handler raises.
\<close>

definition mjpeg_start_failed ::
  "env \<Rightarrow> world \<Rightarrow> MJPEGServer \<Rightarrow> (string + bool) \<times> world \<times> MJPEGServer" where
  "mjpeg_start_failed e w v =
     (case mjpeg_stop e w v of
        (Some msg, w1, v1) \<Rightarrow> (Inl msg, w1, v1)
      | (None, w1, v1) \<Rightarrow> (Inr False, w1, v1))"

definition mjpeg_start ::
  "env \<Rightarrow> world \<Rightarrow> Camera option \<Rightarrow> MJPEGServer \<Rightarrow> (string + bool) \<times> world \<times> MJPEGServer" where
  "mjpeg_start e w cam v =
     (if video_is_running v then (Inr True, w, v)
      else
        (let v1 = v\<lparr>video_has_camera := (cam \<noteq> None)\<rparr> in
         if (case cam of None \<Rightarrow> True | Some c \<Rightarrow> \<not> camera_is_running c)
         then (Inr False, w, v1)
         else
           (let v2 = v1\<lparr>video_app := True, video_runner := True\<rparr> in
            case attempt e (RunnerSetup VideoSite) w of
              (Some msg, w1) \<Rightarrow> mjpeg_start_failed e w1 v2
            | (None, w1) \<Rightarrow>
                (let v3 = v2\<lparr>video_site := True\<rparr> in
                 case attempt e (SiteStart VideoSite) w1 of
                   (Some msg, w2) \<Rightarrow> mjpeg_start_failed e w2 v3
                 | (None, w2) \<Rightarrow> (Inr True, w2, v3\<lparr>video_is_running := True\<rparr>)))))"

subsection \<open>\<^verbatim>\<open>connectivity_server.py\<close>\<close>

record ConnectivityServer =
  portal_is_running :: bool
  portal_app :: bool
  portal_runner :: bool
  portal_site :: bool

definition new_connectivity_server :: ConnectivityServer where
  "new_connectivity_server =
     \<lparr> portal_is_running = False, portal_app = False, portal_runner = False,
       portal_site = False \<rparr>"

text \<open>\<^verbatim>\<open>ConnectivityServer.start\<close>: both handlers return \<open>False\<close>.\<close>

definition portal_start ::
  "env \<Rightarrow> world \<Rightarrow> ConnectivityServer \<Rightarrow> bool \<times> world \<times> ConnectivityServer" where
  "portal_start e w p =
     (if portal_is_running p then (True, w, p)
      else
        (let p1 = p\<lparr>portal_app := True, portal_runner := True\<rparr> in
         case attempt e (RunnerSetup PortalSite) w of
           (Some msg, w1) \<Rightarrow> (False, w1, p1)
         | (None, w1) \<Rightarrow>
             (let p2 = p1\<lparr>portal_site := True\<rparr> in
              case attempt e (SiteStart PortalSite) w1 of
                (Some msg, w2) \<Rightarrow> (False, w2, p2)
              | (None, w2) \<Rightarrow> (True, w2, p2\<lparr>portal_is_running := True\<rparr>))))"

text \<open>\<^verbatim>\<open>ConnectivityServer.stop\<close>: the whole body is guarded, so it never raises.\<close>

definition portal_stop :: "env \<Rightarrow> world \<Rightarrow> ConnectivityServer \<Rightarrow> world \<times> ConnectivityServer" where
  "portal_stop e w p =
     (if \<not> portal_is_running p then (w, p)
      else
        (case (if portal_site p then attempt e (SiteStop PortalSite) w else (None, w)) of
           (Some msg, w1) \<Rightarrow> (w1, p)
         | (None, w1) \<Rightarrow>
             (case (if portal_runner p then attempt e (RunnerCleanup PortalSite) w1
                    else (None, w1)) of
                (Some msg, w2) \<Rightarrow> (w2, p)
              | (None, w2) \<Rightarrow> (w2, p\<lparr>portal_is_running := False\<rparr>))))"

subsection \<open>\<^verbatim>\<open>audio_server.py\<close>\<close>

text \<open>
  \<^verbatim>\<open>create_audio_server\<close> builds an \<^verbatim>\<open>AudioServer\<close> when both audio libraries are
  there and a \<^verbatim>\<open>DummyAudioServer\<close> otherwise; \<open>audio_dummy\<close> tells which.
\<close>

record AudioServer =
  audio_dummy :: bool
  audio_is_running :: bool
  audio_stream :: bool
  audio_ws_server :: bool
  audio_queue :: bool
  audio_clients :: nat

definition create_audio_server :: "bool \<Rightarrow> AudioServer" where
  "create_audio_server libraries_available =
     \<lparr> audio_dummy = (\<not> libraries_available), audio_is_running = False,
       audio_stream = False, audio_ws_server = False, audio_queue = False,
       audio_clients = 0 \<rparr>"

definition audio_client_count :: "AudioServer \<Rightarrow> nat" where
  "audio_client_count a = (if audio_dummy a then 0 else audio_clients a)"

text \<open>
  \<^verbatim>\<open>AudioServer.stop\<close>: stopping the capture and closing the clients are guarded,
  \<^verbatim>\<open>wait_closed()\<close> is not.  \<^verbatim>\<open>DummyAudioServer.stop\<close> only clears the flag.
\<close>

definition audio_stop :: "env \<Rightarrow> world \<Rightarrow> AudioServer \<Rightarrow> string option \<times> world \<times> AudioServer" where
  "audio_stop e w a =
     (if audio_dummy a then (None, w, a\<lparr>audio_is_running := False\<rparr>)
      else
        (let a1 = a\<lparr>audio_is_running := False\<rparr>;
             w1 = (if audio_stream a1 then perform StopInputStream w else w);
             a2 = a1\<lparr>audio_stream := False\<rparr>;
             w2 = close_clients ClientClose (audio_clients a2) w1;
             a3 = a2\<lparr>audio_clients := 0\<rparr>
         in case (if audio_ws_server a3 then attempt e WsClose w2 else (None, w2)) of
              (Some msg, w3) \<Rightarrow> (Some msg, w3, a3)
            | (None, w3) \<Rightarrow> (None, w3, a3\<lparr>audio_ws_server := False\<rparr>)))"

text \<open>
  \<^verbatim>\<open>AudioServer.start\<close>.  \<^verbatim>\<open>_find_i2s_device\<close> catches its own exceptions and its result
  only selects the device, so it is left out.
\<close>

definition audio_start :: "env \<Rightarrow> world \<Rightarrow> AudioServer \<Rightarrow> (string + bool) \<times> world \<times> AudioServer" where
  "audio_start e w a =
     (if audio_dummy a then (Inr True, w, a\<lparr>audio_is_running := True\<rparr>)
      else if audio_is_running a then (Inr True, w, a)
      else
        (let a1 = a\<lparr>audio_queue := True\<rparr> in
         case attempt e OpenInputStream w of
           (Some msg, w1) \<Rightarrow> (Inr False, w1, a1)
         | (None, w1) \<Rightarrow>
             (let a2 = a1\<lparr>audio_stream := True\<rparr> in
              case attempt e StartInputStream w1 of
                (Some msg, w2) \<Rightarrow> (Inr False, w2, a2)
              | (None, w2) \<Rightarrow>
                  (case attempt e WsServe w2 of
                     (Some msg, w3) \<Rightarrow>
                       (case audio_stop e w3 a2 of
                          (Some msg', w4, a4) \<Rightarrow> (Inl msg', w4, a4)
                        | (None, w4, a4) \<Rightarrow> (Inr False, w4, a4))
                   | (None, w3) \<Rightarrow>
                       (Inr True, perform (CreateTask BroadcastTask) w3,
                        a2\<lparr>audio_ws_server := True, audio_is_running := True\<rparr>)))))"


section \<open>The streaming orchestrator (\<^verbatim>\<open>streaming_service.py\<close>)\<close>

text \<open>
  \<open>stream_state\<close> is the field \<^verbatim>\<open>_state\<close>, \<open>start_time\<close> is \<^verbatim>\<open>_start_time\<close>,
  \<open>error_message\<close> is \<^verbatim>\<open>_error_message\<close>.  \<open>on_state_change\<close> tells whether a callback
  is registered, \<open>timeout_task\<close> and \<open>client_check_task\<close> whether the task handles are set.
\<close>

record StreamingService =
  camera_service :: "Camera option"
  ap_manager :: APManager
  connectivity_server :: ConnectivityServer
  mjpeg_server :: MJPEGServer
  audio_server :: AudioServer
  stream_state :: StreamState
  start_time :: real
  error_message :: string
  on_state_change :: bool
  timeout_task :: bool
  client_check_task :: bool

text \<open>\<^verbatim>\<open>StreamingService.__init__\<close>\<close>

definition new_streaming_service :: "env \<Rightarrow> Camera option \<Rightarrow> bool \<Rightarrow> StreamingService" where
  "new_streaming_service e cam libraries_available =
     \<lparr> camera_service = cam,
       ap_manager = new_ap_manager e,
       connectivity_server = new_connectivity_server,
       mjpeg_server = new_mjpeg_server,
       audio_server = create_audio_server libraries_available,
       stream_state = IDLE,
       start_time = 0,
       error_message = [],
       on_state_change = False,
       timeout_task = False,
       client_check_task = False \<rparr>"

text \<open>
  The setter of the \<^verbatim>\<open>state\<close> property.  The callback that the main service registers
  catches its own exceptions, so the call does not raise.
\<close>

definition set_state :: "StreamState \<Rightarrow> world \<Rightarrow> StreamingService \<Rightarrow> world \<times> StreamingService" where
  "set_state new_state w s =
     (if new_state \<noteq> stream_state s
      then (let w1 = perform (Transition (stream_state s) new_state) w
            in (if on_state_change s then perform (Notify new_state) w1 else w1,
                s\<lparr>stream_state := new_state\<rparr>))
      else (w, s))"

subsection \<open>\<^verbatim>\<open>_cleanup\<close>\<close>

text \<open>
  The method has no handler of its own: an exception of \<^verbatim>\<open>mjpeg_server.stop()\<close> or
  \<^verbatim>\<open>audio_server.stop()\<close> leaves it at once.  The results of \<^verbatim>\<open>stop_ap()\<close> and
  \<^verbatim>\<open>restore_wifi()\<close> are dropped.
\<close>

definition cleanup_network :: "env \<Rightarrow> world \<Rightarrow> StreamingService \<Rightarrow> world \<times> StreamingService" where
  "cleanup_network e w s =
     (if is_ap_active (ap_manager s)
      then (case stop_ap e w (ap_manager s) of
              (stopped, w1, ap1) \<Rightarrow>
                (case restore_wifi e w1 ap1 of
                   (restored, w2, ap2) \<Rightarrow> (w2, s\<lparr>ap_manager := ap2\<rparr>)))
      else (w, s))"

definition cleanup :: "env \<Rightarrow> world \<Rightarrow> StreamingService \<Rightarrow> string option \<times> world \<times> StreamingService" where
  "cleanup e w s =
     (let w0 = perform (Call ''_cleanup'') w in
      case (if video_is_running (mjpeg_server s) then mjpeg_stop e w0 (mjpeg_server s)
            else (None, w0, mjpeg_server s)) of
        (Some msg, w1, v1) \<Rightarrow> (Some msg, w1, s\<lparr>mjpeg_server := v1\<rparr>)
      | (None, w1, v1) \<Rightarrow>
          (let s1 = s\<lparr>mjpeg_server := v1\<rparr> in
           case (if audio_is_running (audio_server s1) then audio_stop e w1 (audio_server s1)
                 else (None, w1, audio_server s1)) of
             (Some msg, w2, a2) \<Rightarrow> (Some msg, w2, s1\<lparr>audio_server := a2\<rparr>)
           | (None, w2, a2) \<Rightarrow>
               (let s2 = s1\<lparr>audio_server := a2\<rparr> in
                case (if portal_is_running (connectivity_server s2)
                      then portal_stop e w2 (connectivity_server s2)
                      else (w2, connectivity_server s2)) of
                  (w3, p3) \<Rightarrow>
                    (case cleanup_network e w3 (s2\<lparr>connectivity_server := p3\<rparr>) of
                       (w4, s4) \<Rightarrow> (None, w4, s4)))))"

subsection \<open>\<^verbatim>\<open>start_streaming\<close>\<close>

definition start_monitoring :: "world \<Rightarrow> StreamingService \<Rightarrow> world \<times> StreamingService" where
  "start_monitoring w s =
     (perform (CreateTask ClientCheckTask) (perform (CreateTask TimeoutTask) w),
      s\<lparr>timeout_task := True, client_check_task := True\<rparr>)"

definition stop_monitoring :: "world \<Rightarrow> StreamingService \<Rightarrow> world \<times> StreamingService" where
  "stop_monitoring w s =
     (let w1 = (if timeout_task s then perform (CancelTask TimeoutTask) w else w);
          w2 = (if client_check_task s then perform (CancelTask ClientCheckTask) w1 else w1)
      in (w2, s\<lparr>timeout_task := False, client_check_task := False\<rparr>))"

text \<open>Step 0 of the \<^verbatim>\<open>try\<close> block: the camera.\<close>

definition ensure_camera ::
  "env \<Rightarrow> world \<Rightarrow> StreamingService \<Rightarrow> string option \<times> world \<times> StreamingService" where
  "ensure_camera e w s =
     (case camera_service s of
        None \<Rightarrow> (Some ''Camera service not available'', w, s)
      | Some cam \<Rightarrow>
          if camera_is_running cam then (None, w, s)
          else if answer e CameraStart (now w)
          then (None, perform CameraStart w,
                s\<lparr>camera_service := Some (cam\<lparr>camera_is_running := True\<rparr>)\<rparr>)
          else (Some ''Failed to start camera service'', perform CameraStart w, s))"

text \<open>Steps 4 and 5 and the success path, after the access point is up.\<close>

definition start_servers ::
  "env \<Rightarrow> world \<Rightarrow> StreamingService \<Rightarrow> string option \<times> world \<times> StreamingService" where
  "start_servers e w s =
     (case portal_start e w (connectivity_server s) of
        (portal_started, w1, p1) \<Rightarrow>
     (let s1 = s\<lparr>connectivity_server := p1\<rparr> in
      case mjpeg_start e w1 (camera_service s1) (mjpeg_server s1) of
        (Inl msg, w2, v2) \<Rightarrow> (Some msg, w2, s1\<lparr>mjpeg_server := v2\<rparr>)
      | (Inr False, w2, v2) \<Rightarrow> (Some ''Failed to start video server'', w2, s1\<lparr>mjpeg_server := v2\<rparr>)
      | (Inr True, w2, v2) \<Rightarrow>
     (let s2 = s1\<lparr>mjpeg_server := v2\<rparr> in
      case audio_start e w2 (audio_server s2) of
        (Inl msg, w3, a3) \<Rightarrow> (Some msg, w3, s2\<lparr>audio_server := a3\<rparr>)
      | (Inr audio_started, w3, a3) \<Rightarrow>
     (let s3 = s2\<lparr>audio_server := a3, start_time := clock e (now w3)\<rparr> in
      case set_state READY (perform Now w3) s3 of
        (w4, s4) \<Rightarrow>
     (case start_monitoring w4 s4 of
        (w5, s5) \<Rightarrow> (None, w5, s5))))))"

text \<open>The \<^verbatim>\<open>try\<close> block of \<^verbatim>\<open>start_streaming\<close>: \<open>Some msg\<close> when it raises.\<close>

definition start_streaming_body ::
  "env \<Rightarrow> world \<Rightarrow> StreamingService \<Rightarrow> string option \<times> world \<times> StreamingService" where
  "start_streaming_body e w s =
     (case ensure_camera e w s of
        (Some msg, w1, s1) \<Rightarrow> (Some msg, w1, s1)
      | (None, w1, s1) \<Rightarrow>
     (case save_wifi_credentials e w1 (ap_manager s1) of
        (False, w2, ap2) \<Rightarrow> (Some ''Failed to save Wi-Fi credentials'', w2, s1\<lparr>ap_manager := ap2\<rparr>)
      | (True, w2, ap2) \<Rightarrow>
     (case start_ap e w2 ap2 of
        (False, w3, ap3) \<Rightarrow> (Some ''Failed to start AP mode'', w3, s1\<lparr>ap_manager := ap3\<rparr>)
      | (True, w3, ap3) \<Rightarrow> start_servers e w3 (s1\<lparr>ap_manager := ap3\<rparr>))))"

text \<open>
  \<^verbatim>\<open>start_streaming\<close>: \<open>Inr b\<close> when it returns \<open>b\<close>, \<open>Inl msg\<close> when the \<^verbatim>\<open>_cleanup()\<close> of
  its handler raises.
\<close>

definition start_streaming ::
  "env \<Rightarrow> world \<Rightarrow> StreamingService \<Rightarrow> (string + bool) \<times> world \<times> StreamingService" where
  "start_streaming e w s =
     (if stream_state s \<noteq> IDLE \<and> stream_state s \<noteq> ERROR then (Inr False, w, s)
      else
        (case set_state PREPARING w s of
           (w1, s1) \<Rightarrow>
        (case start_streaming_body e w1 (s1\<lparr>error_message := []\<rparr>) of
           (None, w2, s2) \<Rightarrow> (Inr True, w2, s2)
         | (Some msg, w2, s2) \<Rightarrow>
             (case set_state ERROR w2 (s2\<lparr>error_message := msg\<rparr>) of
                (w3, s3) \<Rightarrow>
                  (case cleanup e w3 s3 of
                     (Some msg', w4, s4) \<Rightarrow> (Inl msg', w4, s4)
                   | (None, w4, s4) \<Rightarrow> (Inr False, w4, s4))))))"

text \<open>
  The \<^verbatim>\<open>try\<close> block when other tasks run while \<^verbatim>\<open>start_ap\<close> is suspended in its last
  \<^verbatim>\<open>await\<close>; \<open>others\<close> is what they do to the world and to the orchestrator.  Before
  that point the block hands over no control (\<^verbatim>\<open>camera_service.start()\<close> contains no
  \<^verbatim>\<open>await\<close>, \<^verbatim>\<open>save_wifi_credentials\<close> is not a coroutine), and neither does a
  \<^verbatim>\<open>start_ap\<close> that finds \<open>AP_READY\<close>.  When \<^verbatim>\<open>start_ap\<close> is resumed it makes its final
  assignment to the manager and returns, and the block goes on with the orchestrator as
  the others left it.
\<close>

definition start_streaming_body_meanwhile ::
  "(world \<Rightarrow> StreamingService \<Rightarrow> world \<times> StreamingService) \<Rightarrow>
   env \<Rightarrow> world \<Rightarrow> StreamingService \<Rightarrow> string option \<times> world \<times> StreamingService" where
  "start_streaming_body_meanwhile others e w s =
     (case ensure_camera e w s of
        (Some msg, w1, s1) \<Rightarrow> (Some msg, w1, s1)
      | (None, w1, s1) \<Rightarrow>
     (case save_wifi_credentials e w1 (ap_manager s1) of
        (False, w2, ap2) \<Rightarrow> (Some ''Failed to save Wi-Fi credentials'', w2, s1\<lparr>ap_manager := ap2\<rparr>)
      | (True, w2, ap2) \<Rightarrow>
          if state ap2 = AP_READY then start_servers e w2 (s1\<lparr>ap_manager := ap2\<rparr>)
          else
     (case start_ap_run e w2 ap2 of
        ((started, final), w3, ap3) \<Rightarrow>
     (case others w3 (s1\<lparr>ap_manager := ap3\<rparr>) of
        (w4, s4) \<Rightarrow>
          (let s5 = s4\<lparr>ap_manager := (ap_manager s4)\<lparr>state := final\<rparr>\<rparr> in
           if started then start_servers e w4 s5
           else (Some ''Failed to start AP mode'', w4, s5))))))"

text \<open>\<^verbatim>\<open>start_streaming\<close> with that \<^verbatim>\<open>try\<close> block.\<close>

definition start_streaming_meanwhile ::
  "(world \<Rightarrow> StreamingService \<Rightarrow> world \<times> StreamingService) \<Rightarrow>
   env \<Rightarrow> world \<Rightarrow> StreamingService \<Rightarrow> (string + bool) \<times> world \<times> StreamingService" where
  "start_streaming_meanwhile others e w s =
     (if stream_state s \<noteq> IDLE \<and> stream_state s \<noteq> ERROR then (Inr False, w, s)
      else
        (case set_state PREPARING w s of
           (w1, s1) \<Rightarrow>
        (case start_streaming_body_meanwhile others e w1 (s1\<lparr>error_message := []\<rparr>) of
           (None, w2, s2) \<Rightarrow> (Inr True, w2, s2)
         | (Some msg, w2, s2) \<Rightarrow>
             (case set_state ERROR w2 (s2\<lparr>error_message := msg\<rparr>) of
                (w3, s3) \<Rightarrow>
                  (case cleanup e w3 s3 of
                     (Some msg', w4, s4) \<Rightarrow> (Inl msg', w4, s4)
                   | (None, w4, s4) \<Rightarrow> (Inr False, w4, s4))))))"

subsection \<open>\<^verbatim>\<open>stop_streaming\<close>\<close>

definition stop_streaming ::
  "env \<Rightarrow> world \<Rightarrow> StreamingService \<Rightarrow> (string + bool) \<times> world \<times> StreamingService" where
  "stop_streaming e w s =
     (if stream_state s = IDLE then (Inr True, w, s)
      else
        (case set_state STOPPING w s of
           (w1, s1) \<Rightarrow>
        (case stop_monitoring w1 s1 of
           (w2, s2) \<Rightarrow>
        (case cleanup e w2 s2 of
           (Some msg, w3, s3) \<Rightarrow> (Inl msg, w3, s3)
         | (None, w3, s3) \<Rightarrow>
             (let w4 = (if start_time s3 > 0 then perform Now w3 else w3)
              in case set_state IDLE w4 (s3\<lparr>start_time := 0\<rparr>) of
                   (w5, s5) \<Rightarrow> (Inr True, w5, s5))))))"

text \<open>
  A stop request of the control channel: the task that \<^verbatim>\<open>_handle_stop_stream\<close> of
  \<^verbatim>\<open>ble_service.py\<close> creates awaits \<^verbatim>\<open>stop_streaming()\<close>, drops its result and catches
  its exception.
\<close>

definition stop_request :: "env \<Rightarrow> world \<Rightarrow> StreamingService \<Rightarrow> world \<times> StreamingService" where
  "stop_request e w s = snd (stop_streaming e w s)"

subsection \<open>A task whose cancellation is pending\<close>

text \<open>
  \<^verbatim>\<open>Task.cancel()\<close> called on the task that is running takes effect at the next
  \<^verbatim>\<open>await\<close> at which the task hands control to the event loop: there
  \<^verbatim>\<open>CancelledError\<close> is raised in the task, and no \<^verbatim>\<open>except Exception\<close> on the way up
  catches it.  A shell command and a sleep always hand over control (the command has
  been spawned by then, so it is in the trace); whether a call into aiohttp or
  websockets does is read from the oracle.  Calls that are not awaited are not
  affected.  The functions of this subsection are the methods that \<^verbatim>\<open>_cleanup\<close> calls,
  run by such a task; the name of each tells which method it is.
\<close>

datatype ending = Returned | Raised string | Cancelled

definition gives_up_control :: "env \<Rightarrow> action \<Rightarrow> nat \<Rightarrow> bool" where
  "gives_up_control e a t = (case a of Cmd c \<Rightarrow> True | Sleep \<Rightarrow> True | _ \<Rightarrow> yields e a t)"

definition await_cancelled :: "env \<Rightarrow> action \<Rightarrow> world \<Rightarrow> ending \<times> world" where
  "await_cancelled e a w =
     ((if gives_up_control e a (now w) then Cancelled
       else case fault e a (now w) of Some msg \<Rightarrow> Raised msg | None \<Rightarrow> Returned),
      perform a w)"

text \<open>
  Closing the clients, each call in \<^verbatim>\<open>try: .. except Exception: pass\<close>: \<open>True\<close> when the
  task was cancelled at one of the calls.
\<close>

fun close_clients_cancelled :: "env \<Rightarrow> action \<Rightarrow> nat \<Rightarrow> world \<Rightarrow> bool \<times> world" where
  "close_clients_cancelled e a 0 w = (False, w)"
| "close_clients_cancelled e a (Suc n) w =
     (if gives_up_control e a (now w) then (True, perform a w)
      else close_clients_cancelled e a n (perform a w))"

definition mjpeg_stop_cancelled ::
  "env \<Rightarrow> world \<Rightarrow> MJPEGServer \<Rightarrow> ending \<times> world \<times> MJPEGServer" where
  "mjpeg_stop_cancelled e w v =
     (let v1 = v\<lparr>video_is_running := False\<rparr> in
      case close_clients_cancelled e WriteEof (video_clients v1) w of
        (True, w1) \<Rightarrow> (Cancelled, w1, v1)
      | (False, w1) \<Rightarrow>
          (let v2 = v1\<lparr>video_clients := 0\<rparr> in
           case (if video_site v2 then await_cancelled e (SiteStop VideoSite) w1
                 else (Returned, w1)) of
             (Cancelled, w2) \<Rightarrow> (Cancelled, w2, v2)
           | (Raised msg, w2) \<Rightarrow> (Raised msg, w2, v2)
           | (Returned, w2) \<Rightarrow>
               (let v3 = v2\<lparr>video_site := False\<rparr> in
                case (if video_runner v3 then await_cancelled e (RunnerCleanup VideoSite) w2
                      else (Returned, w2)) of
                  (Cancelled, w3) \<Rightarrow> (Cancelled, w3, v3)
                | (Raised msg, w3) \<Rightarrow> (Raised msg, w3, v3)
                | (Returned, w3) \<Rightarrow>
                    (Returned, w3, v3\<lparr>video_runner := False, video_app := False\<rparr>))))"

definition audio_stop_cancelled ::
  "env \<Rightarrow> world \<Rightarrow> AudioServer \<Rightarrow> ending \<times> world \<times> AudioServer" where
  "audio_stop_cancelled e w a =
     (if audio_dummy a then (Returned, w, a\<lparr>audio_is_running := False\<rparr>)
      else
        (let a1 = a\<lparr>audio_is_running := False\<rparr>;
             w1 = (if audio_stream a1 then perform StopInputStream w else w);
             a2 = a1\<lparr>audio_stream := False\<rparr>
         in case close_clients_cancelled e ClientClose (audio_clients a2) w1 of
              (True, w2) \<Rightarrow> (Cancelled, w2, a2)
            | (False, w2) \<Rightarrow>
                (let a3 = a2\<lparr>audio_clients := 0\<rparr> in
                 case (if audio_ws_server a3 then await_cancelled e WsClose w2
                       else (Returned, w2)) of
                   (Cancelled, w3) \<Rightarrow> (Cancelled, w3, a3)
                 | (Raised msg, w3) \<Rightarrow> (Raised msg, w3, a3)
                 | (Returned, w3) \<Rightarrow> (Returned, w3, a3\<lparr>audio_ws_server := False\<rparr>))))"

definition portal_stop_cancelled ::
  "env \<Rightarrow> world \<Rightarrow> ConnectivityServer \<Rightarrow> ending \<times> world \<times> ConnectivityServer" where
  "portal_stop_cancelled e w p =
     (if \<not> portal_is_running p then (Returned, w, p)
      else
        (case (if portal_site p then await_cancelled e (SiteStop PortalSite) w
               else (Returned, w)) of
           (Cancelled, w1) \<Rightarrow> (Cancelled, w1, p)
         | (Raised msg, w1) \<Rightarrow> (Returned, w1, p)
         | (Returned, w1) \<Rightarrow>
             (case (if portal_runner p then await_cancelled e (RunnerCleanup PortalSite) w1
                    else (Returned, w1)) of
                (Cancelled, w2) \<Rightarrow> (Cancelled, w2, p)
              | (Raised msg, w2) \<Rightarrow> (Returned, w2, p)
              | (Returned, w2) \<Rightarrow> (Returned, w2, p\<lparr>portal_is_running := False\<rparr>))))"

text \<open>
  \<^verbatim>\<open>stop_ap\<close> and \<^verbatim>\<open>restore_wifi\<close>: the first statement that is awaited is a shell
  command, the first one of the loop or, with no retries configured, of the fallback.
\<close>

definition stop_ap_cancelled :: "env \<Rightarrow> world \<Rightarrow> APManager \<Rightarrow> ending \<times> world \<times> APManager" where
  "stop_ap_cancelled e w ap =
     (if state ap = CLIENT_MODE then (Returned, w, ap)
      else (Cancelled, perform (Cmd ''sudo killall hostapd'') w, ap\<lparr>state := AP_STOPPING\<rparr>))"

definition restore_wifi_cancelled :: "env \<Rightarrow> world \<Rightarrow> APManager \<Rightarrow> ending \<times> world \<times> APManager" where
  "restore_wifi_cancelled e w ap =
     (Cancelled,
      perform (Cmd (if 0 < STREAM_WIFI_RESTORE_RETRIES (cfg e) then reattach_cmd else link_down_cmd))
        (perform (Call ''restore_wifi'') w),
      ap)"

definition cleanup_network_cancelled ::
  "env \<Rightarrow> world \<Rightarrow> StreamingService \<Rightarrow> ending \<times> world \<times> StreamingService" where
  "cleanup_network_cancelled e w s =
     (if is_ap_active (ap_manager s)
      then (case stop_ap_cancelled e w (ap_manager s) of
              (Returned, w1, ap1) \<Rightarrow>
                (case restore_wifi_cancelled e w1 ap1 of
                   (r, w2, ap2) \<Rightarrow> (r, w2, s\<lparr>ap_manager := ap2\<rparr>))
            | (r, w1, ap1) \<Rightarrow> (r, w1, s\<lparr>ap_manager := ap1\<rparr>))
      else (Returned, w, s))"

definition cleanup_cancelled ::
  "env \<Rightarrow> world \<Rightarrow> StreamingService \<Rightarrow> ending \<times> world \<times> StreamingService" where
  "cleanup_cancelled e w s =
     (let w0 = perform (Call ''_cleanup'') w in
      case (if video_is_running (mjpeg_server s) then mjpeg_stop_cancelled e w0 (mjpeg_server s)
            else (Returned, w0, mjpeg_server s)) of
        (Cancelled, w1, v1) \<Rightarrow> (Cancelled, w1, s\<lparr>mjpeg_server := v1\<rparr>)
      | (Raised msg, w1, v1) \<Rightarrow> (Raised msg, w1, s\<lparr>mjpeg_server := v1\<rparr>)
      | (Returned, w1, v1) \<Rightarrow>
          (let s1 = s\<lparr>mjpeg_server := v1\<rparr> in
           case (if audio_is_running (audio_server s1)
                 then audio_stop_cancelled e w1 (audio_server s1)
                 else (Returned, w1, audio_server s1)) of
             (Cancelled, w2, a2) \<Rightarrow> (Cancelled, w2, s1\<lparr>audio_server := a2\<rparr>)
           | (Raised msg, w2, a2) \<Rightarrow> (Raised msg, w2, s1\<lparr>audio_server := a2\<rparr>)
           | (Returned, w2, a2) \<Rightarrow>
               (let s2 = s1\<lparr>audio_server := a2\<rparr> in
                case (if portal_is_running (connectivity_server s2)
                      then portal_stop_cancelled e w2 (connectivity_server s2)
                      else (Returned, w2, connectivity_server s2)) of
                  (Returned, w3, p3) \<Rightarrow>
                    cleanup_network_cancelled e w3 (s2\<lparr>connectivity_server := p3\<rparr>)
                | (r, w3, p3) \<Rightarrow> (r, w3, s2\<lparr>connectivity_server := p3\<rparr>))))"

text \<open>
  \<^verbatim>\<open>stop_streaming\<close>, called outside \<open>IDLE\<close> by a task that its \<^verbatim>\<open>_stop_monitoring()\<close>
  cancels.  The state setter and \<^verbatim>\<open>_stop_monitoring\<close> await nothing; the cancellation
  strikes in \<^verbatim>\<open>_cleanup\<close>, unless nothing there hands over control.
\<close>

definition stop_streaming_cancelled ::
  "env \<Rightarrow> world \<Rightarrow> StreamingService \<Rightarrow> ending \<times> world \<times> StreamingService" where
  "stop_streaming_cancelled e w s =
     (case set_state STOPPING w s of
        (w1, s1) \<Rightarrow>
     (case stop_monitoring w1 s1 of
        (w2, s2) \<Rightarrow>
     (case cleanup_cancelled e w2 s2 of
        (Returned, w3, s3) \<Rightarrow>
          (let w4 = (if start_time s3 > 0 then perform Now w3 else w3)
           in case set_state IDLE w4 (s3\<lparr>start_time := 0\<rparr>) of
                (w5, s5) \<Rightarrow> (Returned, w5, s5))
      | (r, w3, s3) \<Rightarrow> (r, w3, s3))))"

subsection \<open>The monitors\<close>

text \<open>
  What one pass through a monitor's loop body leads to: the loop goes on (the client
  monitor with the new value of its local \<^verbatim>\<open>no_client_start\<close>), the loop is left after
  \<^verbatim>\<open>stop_streaming()\<close> returned, the task ends with the exception of
  \<^verbatim>\<open>stop_streaming()\<close>, or the task was cancelled inside \<^verbatim>\<open>stop_streaming()\<close> and ends
  in its \<^verbatim>\<open>except asyncio.CancelledError: pass\<close>.
\<close>

datatype monitor_step = Continue "real option" | Exit | Died string | Interrupted

text \<open>
  A monitor task is created by \<^verbatim>\<open>_start_monitoring\<close>, which stores its handle, and
  \<^verbatim>\<open>_stop_monitoring\<close> cancels the tasks whose handles are set.  So a monitor that calls
  \<^verbatim>\<open>stop_streaming()\<close> while its own handle is set cancels itself.
\<close>

definition task_handle :: "task \<Rightarrow> StreamingService \<Rightarrow> bool" where
  "task_handle k s =
     (case k of TimeoutTask \<Rightarrow> timeout_task s | ClientCheckTask \<Rightarrow> client_check_task s
      | BroadcastTask \<Rightarrow> False)"

text \<open>\<^verbatim>\<open>await self.stop_streaming()\<close> in the monitor task \<open>me\<close>.\<close>

definition monitor_stop ::
  "env \<Rightarrow> task \<Rightarrow> world \<Rightarrow> StreamingService \<Rightarrow> monitor_step \<times> world \<times> StreamingService" where
  "monitor_stop e me w s =
     (if stream_state s \<noteq> IDLE \<and> task_handle me s
      then (case stop_streaming_cancelled e w s of
              (Cancelled, w1, s1) \<Rightarrow> (Interrupted, w1, s1)
            | (Raised msg, w1, s1) \<Rightarrow> (Died msg, w1, s1)
            | (Returned, w1, s1) \<Rightarrow> (Exit, w1, s1))
      else (case stop_streaming e w s of
              (Inl msg, w1, s1) \<Rightarrow> (Died msg, w1, s1)
            | (Inr stopped, w1, s1) \<Rightarrow> (Exit, w1, s1)))"

text \<open>The body of the loop of \<^verbatim>\<open>_client_monitor\<close>, after its sleep.\<close>

definition client_monitor_body ::
  "env \<Rightarrow> real option \<Rightarrow> world \<Rightarrow> StreamingService \<Rightarrow> monitor_step \<times> world \<times> StreamingService" where
  "client_monitor_body e no_client_start w s =
     (let total_clients = video_clients (mjpeg_server s) + audio_client_count (audio_server s) in
      if total_clients > 0
      then (case (if stream_state s = READY then set_state ACTIVE w s else (w, s)) of
              (w1, s1) \<Rightarrow> (Continue None, w1, s1))
      else if stream_state s = ACTIVE
      then (case no_client_start of
              None \<Rightarrow> (Continue (Some (clock e (now w))), perform Now w, s)
            | Some since \<Rightarrow>
                if clock e (now w) - since \<ge> real_of_int (STREAM_CLIENT_TIMEOUT (cfg e))
                then monitor_stop e ClientCheckTask (perform Now w) s
                else (Continue (Some since), perform Now w, s))
      else (Continue no_client_start, w, s))"

text \<open>The body of the loop of \<^verbatim>\<open>_timeout_monitor\<close>, after its sleep.\<close>

definition timeout_monitor_body ::
  "env \<Rightarrow> world \<Rightarrow> StreamingService \<Rightarrow> monitor_step \<times> world \<times> StreamingService" where
  "timeout_monitor_body e w s =
     (if clock e (now w) - start_time s \<ge> real_of_int (STREAM_TIMEOUT (cfg e))
      then monitor_stop e TimeoutTask (perform Now w) s
      else (Continue None, perform Now w, s))"

text \<open>
  The loop of \<^verbatim>\<open>_client_monitor\<close>.  While the task sleeps, clients come and go: the
  list gives, for each pass, the numbers of video and audio clients that the pass finds.
  The result is \<open>None\<close> when the list ends before the loop does.
\<close>

fun client_monitor ::
  "env \<Rightarrow> (nat \<times> nat) list \<Rightarrow> real option \<Rightarrow> world \<Rightarrow> StreamingService
     \<Rightarrow> (monitor_step \<times> world \<times> StreamingService) option" where
  "client_monitor e [] no_client_start w s =
     (if stream_state s = READY \<or> stream_state s = ACTIVE then None
      else Some (Exit, w, s))"
| "client_monitor e ((video, audio) # seen) no_client_start w s =
     (if stream_state s = READY \<or> stream_state s = ACTIVE
      then
        (let s1 = s\<lparr>mjpeg_server := (mjpeg_server s)\<lparr>video_clients := video\<rparr>,
                   audio_server := (audio_server s)\<lparr>audio_clients := audio\<rparr>\<rparr>
         in case client_monitor_body e no_client_start (perform Sleep w) s1 of
              (Continue timer, w2, s2) \<Rightarrow> client_monitor e seen timer w2 s2
            | (r, w2, s2) \<Rightarrow> Some (r, w2, s2))
      else Some (Exit, w, s))"

section \<open>Notions used in the statements\<close>

text \<open>How often an action stands in the trace.\<close>

definition occ :: "action \<Rightarrow> world \<Rightarrow> nat" where
  "occ a w = count_list (trace w) a"

text \<open>
  The verification of a restore attempt yields an address when the command, run with
  \<^verbatim>\<open>check=False\<close>, completes with an output that is not blank.
\<close>

definition yields_address :: "env \<Rightarrow> nat \<Rightarrow> bool" where
  "yields_address e t =
     (case proc e verify_cmd t of
        Exited rc out err \<Rightarrow> \<not> blank out
      | TimedOut \<Rightarrow> False
      | SpawnError msg \<Rightarrow> False)"

text \<open>
  Between two worlds the trace only grew, and no verification performed in between
  yielded an address.
\<close>

definition silent :: "env \<Rightarrow> world \<Rightarrow> world \<Rightarrow> bool" where
  "silent e w w' \<longleftrightarrow>
     (\<exists>ext. trace w' = trace w @ ext) \<and>
     (\<forall>t. now w \<le> t \<and> t < now w' \<and> trace w' ! t = Cmd verify_cmd \<longrightarrow> \<not> yields_address e t)"

text \<open>The trace only grew, by actions that satisfy \<open>P\<close>.\<close>

definition appends :: "(action \<Rightarrow> bool) \<Rightarrow> world \<Rightarrow> world \<Rightarrow> bool" where
  "appends P w w' \<longleftrightarrow> (\<exists>ext. trace w' = trace w @ ext \<and> list_all P ext)"

text \<open>How a launch command ends well (\<^verbatim>\<open>check=True\<close>), and how the liveness check does.\<close>

definition launches :: "proc_outcome \<Rightarrow> bool" where
  "launches r = (case r of Exited rc out err \<Rightarrow> rc = 0 | TimedOut \<Rightarrow> False | SpawnError msg \<Rightarrow> False)"

definition alive :: "proc_outcome \<Rightarrow> bool" where
  "alive r =
     (case r of Exited rc out err \<Rightarrow> \<not> blank out | TimedOut \<Rightarrow> False | SpawnError msg \<Rightarrow> False)"

text \<open>
  The fatal steps of \<^verbatim>\<open>start_ap\<close> are the writes of the two configuration files, the
  launches of the two daemons and the liveness check.  Such a step, performed at time
  \<open>t\<close>, failed when the write raised, the launch did not end with return code 0, or the
  check found no daemon.
\<close>

definition fatal_action :: "action \<Rightarrow> bool" where
  "fatal_action a =
     (a = WriteFile HOSTAPD_CONF \<or> a = WriteFile DNSMASQ_CONF \<or> a = Cmd hostapd_cmd
      \<or> a = Cmd dnsmasq_cmd \<or> a = Cmd pgrep_cmd)"

definition failed_fatal_step :: "env \<Rightarrow> action \<Rightarrow> nat \<Rightarrow> bool" where
  "failed_fatal_step e a t =
     (case a of
        WriteFile p \<Rightarrow> (p = HOSTAPD_CONF \<or> p = DNSMASQ_CONF) \<and> fault e a t \<noteq> None
      | Cmd c \<Rightarrow> ((c = hostapd_cmd \<or> c = dnsmasq_cmd) \<and> \<not> launches (proc e c t))
                 \<or> (c = pgrep_cmd \<and> \<not> alive (proc e c t))
      | _ \<Rightarrow> False)"

text \<open>Between two worlds a fatal step was performed that failed.\<close>

definition fatal_step_fails :: "env \<Rightarrow> world \<Rightarrow> world \<Rightarrow> bool" where
  "fatal_step_fails e w w' = (\<exists>t\<in>{now w..<now w'}. failed_fatal_step e (trace w' ! t) t)"

text \<open>
  The trace only grew and no fatal step performed in between failed; or none but the
  last action did.
\<close>

definition unharmed :: "env \<Rightarrow> world \<Rightarrow> world \<Rightarrow> bool" where
  "unharmed e w w' \<longleftrightarrow> (\<exists>ext. trace w' = trace w @ ext) \<and> \<not> fatal_step_fails e w w'"

definition unharmed_but_last :: "env \<Rightarrow> world \<Rightarrow> world \<Rightarrow> bool" where
  "unharmed_but_last e w w' \<longleftrightarrow>
     (\<exists>ext. trace w' = trace w @ ext)
     \<and> (\<forall>t. now w \<le> t \<and> t < now w' \<and> failed_fatal_step e (trace w' ! t) t \<longrightarrow> Suc t = now w')"

text \<open>
  The milestones of a session: the state transitions and the entries into
  \<^verbatim>\<open>_cleanup\<close>, in the order in which they happened.
\<close>

definition milestone :: "action \<Rightarrow> bool" where
  "milestone a = (case a of Transition x y \<Rightarrow> True | Call c \<Rightarrow> c = ''_cleanup'' | _ \<Rightarrow> False)"

definition milestones :: "world \<Rightarrow> action list" where
  "milestones w = filter milestone (trace w)"

text \<open>The actions of the access point manager, and those of stopping a server.\<close>

definition system_action :: "action \<Rightarrow> bool" where
  "system_action a =
     (case a of
        Cmd c \<Rightarrow> True | Sleep \<Rightarrow> True | Exists p \<Rightarrow> True | ReadFile p \<Rightarrow> True
      | WriteFile p \<Rightarrow> True | RemoveFile p \<Rightarrow> True | GenPassword \<Rightarrow> True
      | _ \<Rightarrow> False)"

definition network_action :: "action \<Rightarrow> bool" where
  "network_action a = (system_action a \<or> a = Call ''restore_wifi'')"

definition teardown_action :: "action \<Rightarrow> bool" where
  "teardown_action a =
     (case a of
        WriteEof \<Rightarrow> True | SiteStop x \<Rightarrow> True | RunnerCleanup x \<Rightarrow> True
      | StopInputStream \<Rightarrow> True | WsClose \<Rightarrow> True | ClientClose \<Rightarrow> True
      | _ \<Rightarrow> False)"

text \<open>The actions that bring a broadcaster up.\<close>

definition broadcaster_start_action :: "action \<Rightarrow> bool" where
  "broadcaster_start_action a =
     (a = RunnerSetup VideoSite \<or> a = SiteStart VideoSite \<or> a = OpenInputStream
      \<or> a = StartInputStream \<or> a = WsServe \<or> a = CreateTask BroadcastTask)"

section \<open>Example environments\<close>

text \<open>A client configuration with one network.\<close>

definition home_conf :: string where
  "home_conf =
     ''network={'' @ [CHR 0x0A] @
     ''  ssid='' @ [CHR 0x22] @ ''HomeNet'' @ [CHR 0x22, CHR 0x0A] @
     ''  psk='' @ [CHR 0x22] @ ''hunter22'' @ [CHR 0x22, CHR 0x0A] @
     ''}'' @ [CHR 0x0A]"

text \<open>Every command succeeds and prints an address, nothing raises.\<close>

definition calm_env :: env where
  "calm_env =
     \<lparr> cfg = default_settings,
       proc = (\<lambda>cmd t. Exited 0 ''inet 192.168.1.23/24'' []),
       fault = (\<lambda>a t. None),
       answer = (\<lambda>a t. True),
       file_text = (\<lambda>path t. home_conf),
       clock = (\<lambda>t. real t),
       random_password = (\<lambda>t. ''Xy12Zw34''),
       yields = (\<lambda>a t. True) \<rparr>"

text \<open>No command prints anything: the interface never gets an address.\<close>

definition deaf_env :: env where
  "deaf_env = calm_env\<lparr>proc := (\<lambda>cmd t. Exited 0 [] [])\<rparr>"

text \<open>The access point daemon does not launch.\<close>

definition no_hostapd_env :: env where
  "no_hostapd_env =
     calm_env\<lparr>proc := (\<lambda>cmd t. if cmd = hostapd_cmd then Exited 1 [] ''nl80211: driver error''
                                else Exited 0 ''inet 192.168.1.23/24'' [])\<rparr>"

text \<open>The access point daemon does not launch during the first thirty actions.\<close>

definition flaky_hostapd_env :: env where
  "flaky_hostapd_env =
     calm_env\<lparr>proc := (\<lambda>cmd t. if cmd = hostapd_cmd \<and> t < 30
                                then Exited 1 [] ''nl80211: driver error''
                                else Exited 0 ''inet 192.168.1.23/24'' [])\<rparr>"

text \<open>Stopping the site of the video server raises.\<close>

definition stuck_site_env :: env where
  "stuck_site_env =
     calm_env\<lparr>fault := (\<lambda>a t. if a = SiteStop VideoSite then Some ''site is not registered''
                                else None)\<rparr>"

text \<open>The camera does not start.\<close>

definition broken_camera_env :: env where
  "broken_camera_env = calm_env\<lparr>answer := (\<lambda>a t. a \<noteq> CameraStart)\<rparr>"

text \<open>The clock stands at 5000 seconds.\<close>

definition late_env :: env where
  "late_env = calm_env\<lparr>clock := (\<lambda>t. 5000)\<rparr>"

definition empty_world :: world where
  "empty_world = \<lparr>trace = []\<rparr>"

text \<open>The orchestrator as the main service builds it, with a camera that is not running.\<close>

definition fresh_service :: "env \<Rightarrow> StreamingService" where
  "fresh_service e = new_streaming_service e (Some \<lparr>camera_is_running = False\<rparr>) True"

text \<open>The world and the orchestrator after a start request that failed on the camera.\<close>

definition failed_start :: "world \<times> StreamingService" where
  "failed_start =
     snd (start_streaming broken_camera_env empty_world (fresh_service broken_camera_env))"

text \<open>
  A session that is up, as a successful start request leaves it: state \<open>READY\<close>, access
  point ready, both broadcasters and the portal running, both monitors started.
\<close>

definition live_service :: "env \<Rightarrow> StreamingService" where
  "live_service e =
     (new_streaming_service e (Some \<lparr>camera_is_running = True\<rparr>) True)
       \<lparr> ap_manager := (new_ap_manager e)\<lparr>state := AP_READY, ap_password := ''calmorb123''\<rparr>,
         connectivity_server :=
           \<lparr> portal_is_running = True, portal_app = True, portal_runner = True,
             portal_site = True \<rparr>,
         mjpeg_server :=
           \<lparr> video_is_running = True, video_has_camera = True, video_app = True,
             video_runner = True, video_site = True, video_clients = 0 \<rparr>,
         audio_server :=
           \<lparr> audio_dummy = False, audio_is_running = True, audio_stream = True,
             audio_ws_server = True, audio_queue = True, audio_clients = 0 \<rparr>,
         stream_state := READY,
         start_time := 100,
         timeout_task := True,
         client_check_task := True \<rparr>"

section \<open>Properties of the access point manager\<close>

subsection \<open>Traces\<close>

lemma now_perform [simp]: "now (perform a w) = Suc (now w)"
  by (simp add: now_def perform_def)

lemma trace_perform [simp]: "trace (perform a w) = trace w @ [a]"
  by (simp add: perform_def)

lemma occ_perform [simp]: "occ a (perform b w) = occ a w + (if b = a then 1 else 0)"
  by (simp add: occ_def)

lemma snd_attempt [simp]: "snd (attempt e a w) = perform a w"
  by (simp add: attempt_def)

lemma fst_attempt [simp]: "fst (attempt e a w) = fault e a (now w)"
  by (simp add: attempt_def)

lemma snd_sleep [simp]: "snd (sleep e w) = perform Sleep w"
  by (simp add: sleep_def)

lemma fst_sleep [simp]: "fst (sleep e w) = fault e Sleep (now w)"
  by (simp add: sleep_def)

lemma snd_run_command_async [simp]: "snd (run_command_async e c k w) = perform (Cmd c) w"
  by (simp add: run_command_async_def)

lemma run_steps_grows:
  "\<exists>k\<le>length ss. trace (snd (run_steps e ss w)) = trace w @ map step_action (take k ss)
      \<and> (fst (run_steps e ss w) = None \<longrightarrow> k = length ss)
      \<and> (fst (run_steps e ss w) \<noteq> None \<longrightarrow> k > 0 \<and> ss ! (k - 1) = Nap \<and> fault e Sleep (now w + k - 1) = fst (run_steps e ss w))"
proof (induction e ss w rule: run_steps.induct)
  case (1 e w)
  then show ?case by simp
next
  case (2 e cmd check ss w)
  then obtain k where k: "k \<le> length ss"
    "trace (snd (run_steps e ss (perform (Cmd cmd) w))) = trace (perform (Cmd cmd) w) @ map step_action (take k ss)"
    "fst (run_steps e ss (perform (Cmd cmd) w)) = None \<longrightarrow> k = length ss"
    "fst (run_steps e ss (perform (Cmd cmd) w)) \<noteq> None \<longrightarrow> k > 0 \<and> ss ! (k - 1) = Nap \<and> fault e Sleep (now (perform (Cmd cmd) w) + k - 1) = fst (run_steps e ss (perform (Cmd cmd) w))"
    by auto
  show ?case
    apply (rule exI[of _ "Suc k"])
    using k by (auto simp: nth_Cons')
next
  case (3 e ss w)
  show ?case
  proof (cases "fault e Sleep (now w)")
    case None
    then have eq: "run_steps e (Nap # ss) w = run_steps e ss (perform Sleep w)"
      by (simp add: sleep_def attempt_def)
    from None 3 obtain k where k: "k \<le> length ss"
      "trace (snd (run_steps e ss (perform Sleep w))) = trace (perform Sleep w) @ map step_action (take k ss)"
      "fst (run_steps e ss (perform Sleep w)) = None \<longrightarrow> k = length ss"
      "fst (run_steps e ss (perform Sleep w)) \<noteq> None \<longrightarrow> k > 0 \<and> ss ! (k - 1) = Nap \<and> fault e Sleep (now (perform Sleep w) + k - 1) = fst (run_steps e ss (perform Sleep w))"
      by (auto simp: sleep_def attempt_def)
    show ?thesis
      apply (rule exI[of _ "Suc k"])
      using k eq by (auto simp: nth_Cons')
  next
    case (Some msg)
    then show ?thesis
      by (intro exI[of _ 1]) (simp add: sleep_def attempt_def)
  qed
qed

lemma cmds_distinct [simp]:
  "verify_cmd \<noteq> reattach_cmd" "reattach_cmd \<noteq> verify_cmd"
  "verify_cmd \<noteq> link_down_cmd" "link_down_cmd \<noteq> verify_cmd"
  "reattach_cmd \<noteq> link_down_cmd" "link_down_cmd \<noteq> reattach_cmd"
  by (simp_all add: verify_cmd_def reattach_cmd_def link_down_cmd_def)

lemma attempt_steps_actions:
  "map step_action attempt_steps = Cmd reattach_cmd # map step_action (tl attempt_steps)"
  "Cmd reattach_cmd \<notin> set (map step_action (tl attempt_steps))"
  "Cmd link_down_cmd \<notin> set (map step_action attempt_steps)"
  "Cmd verify_cmd \<notin> set (map step_action attempt_steps)"
  "Call c \<notin> set (map step_action attempt_steps)"
  "length attempt_steps = 8"
  by (simp_all add: attempt_steps_def verify_cmd_def reattach_cmd_def link_down_cmd_def)

lemma fallback_steps_actions:
  "map step_action fallback_steps = Cmd link_down_cmd # map step_action (tl fallback_steps)"
  "Cmd link_down_cmd \<notin> set (map step_action (tl fallback_steps))"
  "Cmd reattach_cmd \<notin> set (map step_action fallback_steps)"
  "Cmd verify_cmd \<notin> set (map step_action fallback_steps)"
  "Call c \<notin> set (map step_action fallback_steps)"
  "length fallback_steps = 8"
  by (simp_all add: fallback_steps_def verify_cmd_def reattach_cmd_def link_down_cmd_def)

lemma verify_result:
  "run_command_async e verify_cmd False w = ((success, output), w') \<Longrightarrow>
     (success \<and> \<not> blank output) = yields_address e (now w)"
  by (auto simp: run_command_async_def yields_address_def split: proc_outcome.splits)

lemma notin_take: "a \<notin> set xs \<Longrightarrow> a \<notin> set (take k xs)"
  by (meson in_set_takeD)

lemma run_steps_head:
  assumes "map step_action ss = a # map step_action (tl ss)" "a \<notin> set (map step_action (tl ss))"
    and "a \<noteq> Sleep"
  shows "\<exists>ext. trace (snd (run_steps e ss w)) = trace w @ ext \<and> count_list ext a = 1
           \<and> set ext \<subseteq> set (map step_action ss)
           \<and> (fst (run_steps e ss w) = None \<longrightarrow> ext = map step_action ss)"
proof -
  from run_steps_grows[of ss e w] obtain k where k: "k \<le> length ss"
    "trace (snd (run_steps e ss w)) = trace w @ map step_action (take k ss)"
    "fst (run_steps e ss w) = None \<longrightarrow> k = length ss"
    "fst (run_steps e ss w) \<noteq> None \<longrightarrow> k > 0"
    by (elim exE conjE) simp
  from assms(1) obtain s ss' where ss: "ss = s # ss'" "step_action s = a"
    by (cases ss) simp_all
  have kpos: "k > 0"
  proof (cases "fst (run_steps e ss w)")
    case None
    with k(3) ss show ?thesis by simp
  next
    case (Some m)
    with k(4) show ?thesis by simp
  qed
  let ?ext = "map step_action (take k ss)"
  have "take k ss = s # take (k - 1) ss'"
    using kpos ss by (simp add: take_Cons')
  then have ext: "?ext = a # take (k - 1) (map step_action ss')"
    using ss by (simp add: take_map)
  have "a \<notin> set (take (k - 1) (map step_action ss'))"
    using assms(2) ss notin_take by fastforce
  then have c1: "count_list ?ext a = 1"
    using ext by simp
  have c2: "set ?ext \<subseteq> set (map step_action ss)"
    by (metis set_take_subset take_map)
  have c3: "fst (run_steps e ss w) = None \<longrightarrow> ?ext = map step_action ss"
    using k(3) by simp
  show ?thesis
    by (rule exI[of _ ?ext]) (use k(2) c1 c2 c3 in blast)
qed

lemma restore_attempt_cases:
  assumes "restore_attempt e w = (r, w')"
  obtains (raised) msg where "run_steps e attempt_steps w = (Some msg, w')" "r = AttemptError msg"
  | (connected) w1 where "run_steps e attempt_steps w = (None, w1)"
        "yields_address e (now w1)" "w' = perform (Cmd verify_cmd) w1" "r = Connected"
  | (failed) w1 where "run_steps e attempt_steps w = (None, w1)"
        "\<not> yields_address e (now w1)" "w' = perform Sleep (perform (Cmd verify_cmd) w1)"
        "r \<noteq> Connected"
proof -
  obtain x w1 where rs: "run_steps e attempt_steps w = (x, w1)"
    by (cases "run_steps e attempt_steps w")
  show thesis
  proof (cases x)
    case (Some msg)
    with rs assms have "r = AttemptError msg" "w' = w1"
      by (simp_all add: restore_attempt_def)
    with rs Some show thesis by (intro raised) simp_all
  next
    case None
    obtain success outp w2 where v: "run_command_async e verify_cmd False w1 = ((success, outp), w2)"
      by (metis surj_pair)
    then have w2: "w2 = perform (Cmd verify_cmd) w1"
      by (metis snd_conv snd_run_command_async)
    have y: "(success \<and> \<not> blank outp) = yields_address e (now w1)"
      using verify_result[OF v] .
    show thesis
    proof (cases "yields_address e (now w1)")
      case True
      with y rs None v assms have "r = Connected" "w' = w2"
        by (simp_all add: restore_attempt_def)
      with rs None True w2 show thesis by (intro connected) simp_all
    next
      case False
      with y have n: "\<not> (success \<and> \<not> blank outp)" by simp
      obtain z w3 where sl: "sleep e w2 = (z, w3)" by (cases "sleep e w2")
      then have w3: "w3 = perform Sleep w2" by (metis snd_conv snd_sleep)
      from rs None v assms n sl have "r \<noteq> Connected" "w' = w3"
        by (auto simp add: restore_attempt_def split: option.splits)
      with rs None False w2 w3 show thesis by (intro failed) simp_all
    qed
  qed
qed

lemma silent_refl: "silent e w w"
  by (auto simp: silent_def)

lemma silent_ext:
  assumes "trace w' = trace w @ ext" "Cmd verify_cmd \<notin> set ext"
  shows "silent e w w'"
proof -
  have "trace w' ! t \<noteq> Cmd verify_cmd" if "now w \<le> t" "t < now w'" for t
  proof -
    have "trace w' ! t = ext ! (t - now w)"
      using that assms(1) by (simp add: now_def nth_append)
    moreover have "t - now w < length ext"
      using that assms(1) by (simp add: now_def)
    ultimately show ?thesis using assms(2) nth_mem by metis
  qed
  then show ?thesis using assms(1) by (auto simp: silent_def)
qed

lemma silent_trans:
  assumes "silent e w w1" "silent e w1 w2"
  shows "silent e w w2"
proof -
  from assms obtain x1 x2 where x: "trace w1 = trace w @ x1" "trace w2 = trace w1 @ x2"
    by (auto simp: silent_def)
  have "\<not> yields_address e t" if t: "now w \<le> t" "t < now w2" "trace w2 ! t = Cmd verify_cmd" for t
  proof (cases "t < now w1")
    case True
    then have "trace w2 ! t = trace w1 ! t"
      using x(2) by (simp add: now_def nth_append)
    with True t assms(1) show ?thesis by (simp add: silent_def)
  next
    case False
    with t assms(2) show ?thesis by (simp add: silent_def)
  qed
  then show ?thesis using x by (auto simp: silent_def)
qed

lemma silent_perform:
  assumes "a \<noteq> Cmd verify_cmd \<or> \<not> yields_address e (now w)"
  shows "silent e w (perform a w)"
proof -
  have "\<not> yields_address e t"
    if "now w \<le> t" "t < now (perform a w)" "trace (perform a w) ! t = Cmd verify_cmd" for t
  proof -
    from that have "t = now w" by simp
    with that(3) have "a = Cmd verify_cmd" by (simp add: now_def)
    with assms \<open>t = now w\<close> show ?thesis by simp
  qed
  then show ?thesis by (auto simp: silent_def)
qed

lemma silent_now: "silent e w w' \<Longrightarrow> now w \<le> now w'"
  by (auto simp: silent_def now_def)

lemma run_steps_occ_other:
  assumes "a \<notin> set (map step_action ss)"
  shows "occ a (snd (run_steps e ss w)) = occ a w"
proof -
  from run_steps_grows[of ss e w] obtain k where
    "trace (snd (run_steps e ss w)) = trace w @ map step_action (take k ss)"
    by (elim exE conjE)
  moreover have "a \<notin> set (map step_action (take k ss))"
    using assms by (metis notin_take take_map)
  ultimately show ?thesis by (simp add: occ_def)
qed

lemma run_steps_silent:
  assumes "Cmd verify_cmd \<notin> set (map step_action ss)"
  shows "silent e w (snd (run_steps e ss w))"
proof -
  from run_steps_grows[of ss e w] obtain k where
    k: "trace (snd (run_steps e ss w)) = trace w @ map step_action (take k ss)"
    by (elim exE conjE)
  have "Cmd verify_cmd \<notin> set (map step_action (take k ss))"
    using assms by (metis notin_take take_map)
  with k show ?thesis by (rule silent_ext)
qed

lemma run_steps_occ_head:
  assumes "map step_action ss = a # map step_action (tl ss)" "a \<notin> set (map step_action (tl ss))"
    and "a \<noteq> Sleep"
  shows "occ a (snd (run_steps e ss w)) = occ a w + 1"
proof -
  from run_steps_head[OF assms, of e w] obtain ext where
    "trace (snd (run_steps e ss w)) = trace w @ ext" "count_list ext a = 1"
    by (elim exE conjE)
  then show ?thesis by (simp add: occ_def)
qed

lemma run_steps_raised:
  assumes "run_steps e ss w = (Some msg, w')"
  shows "\<exists>t. now w \<le> t \<and> t < now w' \<and> fault e Sleep t = Some msg"
proof -
  from run_steps_grows[of ss e w] assms obtain k where k: "k \<le> length ss"
    "trace w' = trace w @ map step_action (take k ss)"
    "k > 0" "fault e Sleep (now w + k - 1) = Some msg"
    by (elim exE conjE) simp
  have "now w' = now w + k" using k(1,2) by (simp add: now_def)
  with k(3,4) show ?thesis by (intro exI[of _ "now w + k - 1"]) simp
qed

lemma run_steps_no_fault:
  assumes "\<forall>t. fault e Sleep t = None"
  shows "fst (run_steps e ss w) = None"
  using assms by (induction e ss w rule: run_steps.induct) (simp_all add: sleep_def attempt_def)

lemma restore_attempt_occ:
  assumes "restore_attempt e w = (r, w')"
  shows "occ (Cmd reattach_cmd) w' = occ (Cmd reattach_cmd) w + 1"
    and "occ (Cmd link_down_cmd) w' = occ (Cmd link_down_cmd) w"
    and "occ (Call c) w' = occ (Call c) w"
proof -
  have h: "occ (Cmd reattach_cmd) (snd (run_steps e attempt_steps w)) = occ (Cmd reattach_cmd) w + 1"
    by (rule run_steps_occ_head[OF attempt_steps_actions(1) attempt_steps_actions(2)]) simp
  have l: "occ (Cmd link_down_cmd) (snd (run_steps e attempt_steps w)) = occ (Cmd link_down_cmd) w"
    by (rule run_steps_occ_other[OF attempt_steps_actions(3)])
  have c: "occ (Call c) (snd (run_steps e attempt_steps w)) = occ (Call c) w"
    by (rule run_steps_occ_other[OF attempt_steps_actions(5)])
  from assms show "occ (Cmd reattach_cmd) w' = occ (Cmd reattach_cmd) w + 1"
    by (cases rule: restore_attempt_cases) (use h in simp_all)
  from assms show "occ (Cmd link_down_cmd) w' = occ (Cmd link_down_cmd) w"
    by (cases rule: restore_attempt_cases) (use l in simp_all)
  from assms show "occ (Call c) w' = occ (Call c) w"
    by (cases rule: restore_attempt_cases) (use c in simp_all)
qed

lemma restore_attempt_silent:
  assumes "restore_attempt e w = (r, w')"
  shows "if r = Connected
         then \<exists>w1. silent e w w1 \<and> yields_address e (now w1) \<and> w' = perform (Cmd verify_cmd) w1
         else silent e w w'"
proof -
  have s: "silent e w (snd (run_steps e attempt_steps w))"
    by (rule run_steps_silent[OF attempt_steps_actions(4)])
  from assms show ?thesis
  proof (cases rule: restore_attempt_cases)
    case (raised msg)
    with s show ?thesis by simp
  next
    case (connected w1)
    with s show ?thesis by auto
  next
    case (failed w1)
    with s have "silent e w w1" by simp
    moreover have "silent e w1 (perform (Cmd verify_cmd) w1)"
      using failed(2) by (intro silent_perform) simp
    moreover have "silent e (perform (Cmd verify_cmd) w1) w'"
      unfolding failed(3) by (intro silent_perform) simp
    ultimately have "silent e w w'" by (blast intro: silent_trans)
    with failed(4) show ?thesis by simp
  qed
qed

lemma restore_loop_occ:
  assumes "restore_loop e n w = (c, w')"
  shows "occ (Cmd reattach_cmd) w' \<le> occ (Cmd reattach_cmd) w + n
       \<and> (\<not> c \<longrightarrow> occ (Cmd reattach_cmd) w' = occ (Cmd reattach_cmd) w + n)
       \<and> occ (Cmd link_down_cmd) w' = occ (Cmd link_down_cmd) w
       \<and> occ (Call x) w' = occ (Call x) w"
  using assms
proof (induction n arbitrary: w)
  case 0
  then show ?case by simp
next
  case (Suc n)
  obtain r w1 where a: "restore_attempt e w = (r, w1)" by (cases "restore_attempt e w")
  note o = restore_attempt_occ[OF a]
  show ?case
  proof (cases "r = Connected")
    case True
    with a Suc.prems have "c" "w' = w1" by simp_all
    with o show ?thesis by simp
  next
    case False
    with a Suc.prems have "restore_loop e n w1 = (c, w')"
      by (cases r) simp_all
    from Suc.IH[OF this] o show ?thesis by simp
  qed
qed

lemma restore_loop_silent:
  assumes "restore_loop e n w = (c, w')"
  shows "if c
         then \<exists>w1. silent e w w1 \<and> yields_address e (now w1) \<and> w' = perform (Cmd verify_cmd) w1
         else silent e w w'"
  using assms
proof (induction n arbitrary: w)
  case 0
  then show ?case by (auto simp: silent_refl)
next
  case (Suc n)
  obtain r w1 where a: "restore_attempt e w = (r, w1)" by (cases "restore_attempt e w")
  note s = restore_attempt_silent[OF a]
  show ?case
  proof (cases "r = Connected")
    case True
    with a Suc.prems have "c" "w' = w1" by simp_all
    with s True show ?thesis by simp
  next
    case False
    with a Suc.prems have l: "restore_loop e n w1 = (c, w')"
      by (cases r) simp_all
    from s False have s1: "silent e w w1" by simp
    from Suc.IH[OF l] s1 show ?thesis
      by (auto intro: silent_trans split: if_splits)
  qed
qed

lemma hard_fallback_occ:
  "occ (Cmd link_down_cmd) (snd (hard_fallback e w)) = occ (Cmd link_down_cmd) w + 1"
  "occ (Cmd reattach_cmd) (snd (hard_fallback e w)) = occ (Cmd reattach_cmd) w"
  "occ (Call c) (snd (hard_fallback e w)) = occ (Call c) w"
  "silent e w (snd (hard_fallback e w))"
  unfolding hard_fallback_def
  subgoal by (rule run_steps_occ_head[OF fallback_steps_actions(1) fallback_steps_actions(2)]) simp
  subgoal by (rule run_steps_occ_other[OF fallback_steps_actions(3)])
  subgoal by (rule run_steps_occ_other[OF fallback_steps_actions(5)])
  subgoal by (rule run_steps_silent[OF fallback_steps_actions(4)])
  done

lemma restore_wifi_cases:
  assumes "restore_wifi e w ap = (ok, w', ap')"
  obtains (connected) "restore_loop e (nat (STREAM_WIFI_RESTORE_RETRIES (cfg e)))
                         (perform (Call ''restore_wifi'') w) = (True, w')"
      "ok" "ap' = ap\<lparr>state := CLIENT_MODE\<rparr>"
  | (fallback) w1 x where "restore_loop e (nat (STREAM_WIFI_RESTORE_RETRIES (cfg e)))
                         (perform (Call ''restore_wifi'') w) = (False, w1)"
      "hard_fallback e w1 = (x, w')" "ok = (x = None)"
      "ap' = ap\<lparr>state := (if x = None then CLIENT_MODE else AP_FAILED)\<rparr>"
proof -
  obtain c w1 where l: "restore_loop e (nat (STREAM_WIFI_RESTORE_RETRIES (cfg e)))
                         (perform (Call ''restore_wifi'') w) = (c, w1)"
    by (metis surj_pair)
  show thesis
  proof (cases c)
    case True
    with l assms show thesis by (intro connected) (simp_all add: restore_wifi_def)
  next
    case False
    obtain x w2 where f: "hard_fallback e w1 = (x, w2)" by (metis surj_pair)
    with False l assms show thesis
      by (intro fallback[of w1 x]) (auto simp add: restore_wifi_def split: option.splits)
  qed
qed

lemma silent_verify_last:
  assumes "silent e w w1" "w' = perform (Cmd verify_cmd) w1"
    and "now w \<le> t" "t < now w'" "trace w' ! t = Cmd verify_cmd" "yields_address e t"
  shows "Suc t = now w'"
proof (rule ccontr)
  assume "Suc t \<noteq> now w'"
  with assms(2,4) have lt: "t < now w1" by simp
  then have "trace w' ! t = trace w1 ! t"
    using assms(2) by (simp add: now_def nth_append)
  with assms(1,3,5,6) lt show False by (simp add: silent_def)
qed

subsection \<open>Restoring the client connection\<close>

text \<open>
  Claim C2.  \<^verbatim>\<open>restore_wifi\<close> makes at most \<open>N\<close> attempts, \<open>N\<close> being
  \<^verbatim>\<open>STREAM_WIFI_RESTORE_RETRIES\<close> (each attempt starts with the command that hands the
  interface back to the network manager), and runs the fallback at most once (it starts
  with the command that takes the link down).  A verification that yields an address is
  the last action of the call, which then succeeds in \<open>CLIENT_MODE\<close> without the
  fallback; without the fallback the call ended that way.  The fallback runs only after
  all \<open>N\<close> attempts, and then the call succeeds exactly when the fallback did not
  raise.  The result is success with \<open>CLIENT_MODE\<close> or failure with \<open>AP_FAILED\<close>; failure
  needs the fallback and an exception in it, and when nothing raises the call succeeds
  whatever the commands return.  The default of \<open>N\<close> is 3.
\<close>

theorem restore_wifi_retries_then_fallback:
  assumes "restore_wifi e w ap = (ok, w', ap')"
  shows "occ (Cmd reattach_cmd) w'
           \<le> occ (Cmd reattach_cmd) w + nat (STREAM_WIFI_RESTORE_RETRIES (cfg e))
       \<and> occ (Cmd link_down_cmd) w' \<le> occ (Cmd link_down_cmd) w + 1
       \<and> (\<forall>t. now w \<le> t \<and> t < now w' \<and> trace w' ! t = Cmd verify_cmd \<and> yields_address e t
              \<longrightarrow> Suc t = now w' \<and> ok \<and> state ap' = CLIENT_MODE
                  \<and> occ (Cmd link_down_cmd) w' = occ (Cmd link_down_cmd) w)
       \<and> (occ (Cmd link_down_cmd) w' = occ (Cmd link_down_cmd) w
              \<longrightarrow> ok \<and> state ap' = CLIENT_MODE \<and> yields_address e (now w' - 1)
                  \<and> last (trace w') = Cmd verify_cmd)
       \<and> (occ (Cmd link_down_cmd) w' = occ (Cmd link_down_cmd) w + 1
              \<longrightarrow> occ (Cmd reattach_cmd) w'
                    = occ (Cmd reattach_cmd) w + nat (STREAM_WIFI_RESTORE_RETRIES (cfg e))
                  \<and> (\<exists>w1 x. hard_fallback e w1 = (x, w') \<and> ok = (x = None)))
       \<and> ap' = ap\<lparr>state := (if ok then CLIENT_MODE else AP_FAILED)\<rparr>
       \<and> (\<not> ok \<longrightarrow> occ (Cmd link_down_cmd) w' = occ (Cmd link_down_cmd) w + 1
                  \<and> (\<exists>t. now w \<le> t \<and> t < now w' \<and> fault e Sleep t \<noteq> None))
       \<and> ((\<forall>t. fault e Sleep t = None) \<longrightarrow> ok)
       \<and> occ (Call ''restore_wifi'') w' = occ (Call ''restore_wifi'') w + 1
       \<and> STREAM_WIFI_RESTORE_RETRIES default_settings = 3"
  using assms
proof (cases rule: restore_wifi_cases)
  case connected
  let ?w0 = "perform (Call ''restore_wifi'') w"
  note o = restore_loop_occ[OF connected(1)]
  from restore_loop_silent[OF connected(1)] obtain w1 where
    w1: "silent e ?w0 w1" "yields_address e (now w1)" "w' = perform (Cmd verify_cmd) w1"
    by auto
  have ld: "occ (Cmd link_down_cmd) w' = occ (Cmd link_down_cmd) w"
    using o[of undefined] by simp
  have "Suc t = now w'"
    if "now w \<le> t" "t < now w'" "trace w' ! t = Cmd verify_cmd" "yields_address e t" for t
  proof -
    from w1(1) obtain ext where ext: "trace w1 = trace ?w0 @ ext" by (auto simp: silent_def)
    have "t \<noteq> now w"
    proof
      assume "t = now w"
      then have "trace w' ! t = Call ''restore_wifi''"
        using w1(3) ext by (simp add: now_def nth_append)
      with that(3) show False by simp
    qed
    with that(1) have "now ?w0 \<le> t" by simp
    from silent_verify_last[OF w1(1) w1(3) this that(2,3,4)] show ?thesis .
  qed
  moreover have "yields_address e (now w' - 1)" "last (trace w') = Cmd verify_cmd"
    using w1(2,3) by simp_all
  moreover have "occ (Cmd reattach_cmd) w'
           \<le> occ (Cmd reattach_cmd) w + nat (STREAM_WIFI_RESTORE_RETRIES (cfg e))"
    using o[of undefined] by simp
  moreover have "occ (Call ''restore_wifi'') w' = occ (Call ''restore_wifi'') w + 1"
    using o[of "''restore_wifi''"] by simp
  ultimately show ?thesis
    using connected(2,3) ld by (simp add: default_settings_def)
next
  case (fallback w1 x)
  let ?w0 = "perform (Call ''restore_wifi'') w"
  note o = restore_loop_occ[OF fallback(1)]
  from restore_loop_silent[OF fallback(1)] have s1: "silent e ?w0 w1" by simp
  have w': "w' = snd (hard_fallback e w1)" using fallback(2) by simp
  note f = hard_fallback_occ[where e=e and w=w1, folded w']
  have ld: "occ (Cmd link_down_cmd) w' = occ (Cmd link_down_cmd) w + 1"
    using o[of undefined] f(1) by simp
  have ra: "occ (Cmd reattach_cmd) w'
           = occ (Cmd reattach_cmd) w + nat (STREAM_WIFI_RESTORE_RETRIES (cfg e))"
    using o[of undefined] f(2) by simp
  have ca: "occ (Call ''restore_wifi'') w' = occ (Call ''restore_wifi'') w + 1"
    using o[of "''restore_wifi''"] f(3)[where c="''restore_wifi''"] by simp
  have s: "silent e ?w0 w'" using s1 f(4) by (rule silent_trans)
  have nohit: "\<not> (now w \<le> t \<and> t < now w' \<and> trace w' ! t = Cmd verify_cmd \<and> yields_address e t)" for t
  proof
    assume a: "now w \<le> t \<and> t < now w' \<and> trace w' ! t = Cmd verify_cmd \<and> yields_address e t"
    from s obtain ext where ext: "trace w' = trace ?w0 @ ext" by (auto simp: silent_def)
    have "t \<noteq> now w"
    proof
      assume "t = now w"
      then have "trace w' ! t = Call ''restore_wifi''"
        using ext by (simp add: now_def nth_append)
      with a show False by simp
    qed
    with a have "now ?w0 \<le> t" by simp
    with s a show False unfolding silent_def by blast
  qed
  have flt: "\<exists>t. now w \<le> t \<and> t < now w' \<and> fault e Sleep t \<noteq> None" if "\<not> ok"
  proof -
    from that fallback(3) obtain msg where "x = Some msg" by auto
    with fallback(2) have "run_steps e fallback_steps w1 = (Some msg, w')"
      by (simp add: hard_fallback_def)
    from run_steps_raised[OF this] obtain t where
      t: "now w1 \<le> t" "t < now w'" "fault e Sleep t = Some msg" by blast
    have "now w \<le> now w1" using silent_now[OF s1] by simp
    with t show ?thesis by (intro exI[of _ t]) simp
  qed
  have nof: "ok" if "\<forall>t. fault e Sleep t = None"
    using run_steps_no_fault[OF that, of fallback_steps w1] fallback(2,3)
    by (simp add: hard_fallback_def)
  have ex: "\<exists>w1 x. hard_fallback e w1 = (x, w') \<and> ok = (x = None)"
    using fallback(2,3) by blast
  have ap: "ap' = ap\<lparr>state := (if ok then CLIENT_MODE else AP_FAILED)\<rparr>"
    using fallback(3,4) by simp
  show ?thesis
    using ld ra ca nohit flt nof ex ap by (simp add: default_settings_def)
qed

theorem restore_wifi_retries_then_fallback_witness:
  "fst (restore_wifi deaf_env empty_world (new_ap_manager deaf_env))
   \<and> state (snd (snd (restore_wifi deaf_env empty_world (new_ap_manager deaf_env)))) = CLIENT_MODE
   \<and> occ (Cmd reattach_cmd) (fst (snd (restore_wifi deaf_env empty_world (new_ap_manager deaf_env)))) \<le> 3
   \<and> occ (Cmd link_down_cmd) (fst (snd (restore_wifi deaf_env empty_world (new_ap_manager deaf_env)))) \<le> 1"
proof -
  let ?r = "restore_wifi deaf_env empty_world (new_ap_manager deaf_env)"
  have h: "?r = (fst ?r, fst (snd ?r), snd (snd ?r))" by simp
  have nf: "\<forall>t. fault deaf_env Sleep t = None"
    by (simp add: deaf_env_def calm_env_def)
  have n: "nat (STREAM_WIFI_RESTORE_RETRIES (cfg deaf_env)) = 3"
    by (simp add: deaf_env_def calm_env_def default_settings_def)
  have z: "occ a empty_world = 0" for a
    by (simp add: occ_def empty_world_def)
  from restore_wifi_retries_then_fallback[OF h] nf n z show ?thesis
    by simp
qed

subsection \<open>What the access point manager appends to the trace\<close>

lemma appends_refl [simp, intro]: "appends P w w"
  by (simp add: appends_def)

lemma appends_perform: "appends P w w1 \<Longrightarrow> P a \<Longrightarrow> appends P w (perform a w1)"
  by (auto simp: appends_def)

lemma appends_perform_iff [simp]:
  "appends P w w1 \<Longrightarrow> appends P w (perform a w1) = P a"
  by (auto simp: appends_def)

lemma appends_trans: "appends P w w1 \<Longrightarrow> appends P w1 w2 \<Longrightarrow> appends P w w2"
  by (auto simp: appends_def)

lemma appends_mono: "appends P w w' \<Longrightarrow> (\<And>a. P a \<Longrightarrow> Q a) \<Longrightarrow> appends Q w w'"
  by (auto simp: appends_def list_all_iff)

lemma appends_occ: "appends P w w' \<Longrightarrow> \<not> P a \<Longrightarrow> occ a w' = occ a w"
  by (auto simp: appends_def occ_def list_all_iff)

lemma system_action_simps [simp]:
  "system_action (Cmd c)" "system_action Sleep" "system_action (Exists p)"
  "system_action (ReadFile p)" "system_action (WriteFile p)" "system_action (RemoveFile p)"
  "system_action GenPassword"
  "\<not> system_action (Call c)" "\<not> system_action (Transition x y)"
  "\<not> system_action (Notify x)" "\<not> system_action (RunnerSetup z)" "\<not> system_action (SiteStart z)"
  "\<not> system_action OpenInputStream" "\<not> system_action StartInputStream"
  "\<not> system_action WsServe" "\<not> system_action (CreateTask k)"
  by (simp_all add: system_action_def)

lemma system_network [simp]: "system_action a \<Longrightarrow> network_action a"
  by (simp add: network_action_def)

lemma network_action_simps [simp]:
  "network_action (Call ''restore_wifi'')"
  "\<not> network_action (Call ''_cleanup'')" "\<not> network_action (Transition x y)"
  "\<not> network_action (Notify x)" "\<not> network_action (RunnerSetup z)" "\<not> network_action (SiteStart z)"
  "\<not> network_action OpenInputStream" "\<not> network_action StartInputStream"
  "\<not> network_action WsServe" "\<not> network_action (CreateTask k)"
  by (simp_all add: network_action_def)

lemma attempt_appends [simp]:
  "appends P w0 w \<Longrightarrow> P a \<Longrightarrow> appends P w0 (snd (attempt e a w))"
  by (simp add: attempt_def)

lemma sleep_appends [simp]:
  "appends P w0 w \<Longrightarrow> P Sleep \<Longrightarrow> appends P w0 (snd (sleep e w))"
  by (simp add: sleep_def)

lemma run_command_async_appends [simp]:
  "appends P w0 w \<Longrightarrow> P (Cmd c) \<Longrightarrow> appends P w0 (snd (run_command_async e c k w))"
  by (simp add: run_command_async_def)

lemma run_steps_appends [simp]:
  "appends P w0 w \<Longrightarrow> \<forall>a. system_action a \<longrightarrow> P a
     \<Longrightarrow> appends P w0 (snd (run_steps e ss w))"
proof (induction ss arbitrary: w)
  case Nil
  then show ?case by simp
next
  case (Cons s ss)
  then show ?case
    by (cases s) (simp_all add: split_beta sleep_def attempt_def split: option.splits)
qed

lemma remove_files_appends [simp]:
  "appends P w0 w \<Longrightarrow> \<forall>a. system_action a \<longrightarrow> P a
     \<Longrightarrow> appends P w0 (snd (remove_files e ps w))"
  by (induction ps arbitrary: w)
     (simp_all add: split_beta Let_def attempt_def split: option.splits)

lemma save_wifi_credentials_appends [simp]:
  "appends P w0 w \<Longrightarrow> \<forall>a. system_action a \<longrightarrow> P a
     \<Longrightarrow> appends P w0 (fst (snd (save_wifi_credentials e w ap)))"
  by (simp add: save_wifi_credentials_def split_beta Let_def split: option.splits)

lemma restore_attempt_appends [simp]:
  "appends P w0 w \<Longrightarrow> \<forall>a. system_action a \<longrightarrow> P a
     \<Longrightarrow> appends P w0 (snd (restore_attempt e w))"
  by (simp add: restore_attempt_def split_beta split: option.splits)

lemma restore_loop_appends [simp]:
  "appends P w0 w \<Longrightarrow> \<forall>a. system_action a \<longrightarrow> P a
     \<Longrightarrow> appends P w0 (snd (restore_loop e n w))"
  by (induction n arbitrary: w) (simp_all add: split_beta split: attempt_result.splits)

lemma restore_wifi_appends [simp]:
  "appends P w0 w \<Longrightarrow> \<forall>a. network_action a \<longrightarrow> P a
     \<Longrightarrow> appends P w0 (fst (snd (restore_wifi e w ap)))"
  by (simp add: restore_wifi_def hard_fallback_def split_beta network_action_def
           split: option.splits bool.splits)

lemma create_hostapd_config_appends [simp]:
  "appends P w0 w \<Longrightarrow> \<forall>a. system_action a \<longrightarrow> P a
     \<Longrightarrow> appends P w0 (fst (snd (create_hostapd_config e w ap)))"
  by (simp add: create_hostapd_config_def split_beta split: option.splits)

lemma create_dnsmasq_config_appends [simp]:
  "appends P w0 w \<Longrightarrow> \<forall>a. system_action a \<longrightarrow> P a
     \<Longrightarrow> appends P w0 (snd (create_dnsmasq_config e w))"
  by (simp add: create_dnsmasq_config_def split_beta split: option.splits)

lemma start_ap_body_appends [simp]:
  "appends P w0 w \<Longrightarrow> \<forall>a. system_action a \<longrightarrow> P a
     \<Longrightarrow> appends P w0 (fst (snd (start_ap_body e w ap)))"
  by (simp add: start_ap_body_def split_beta split: option.splits bool.splits)

lemma start_ap_appends [simp]:
  "appends P w0 w \<Longrightarrow> \<forall>a. network_action a \<longrightarrow> P a
     \<Longrightarrow> appends P w0 (fst (snd (start_ap e w ap)))"
  by (simp add: start_ap_def split_beta network_action_def split: option.splits)

lemma stop_ap_body_appends [simp]:
  "appends P w0 w \<Longrightarrow> \<forall>a. system_action a \<longrightarrow> P a
     \<Longrightarrow> appends P w0 (snd (stop_ap_body e w))"
  by (simp add: stop_ap_body_def split_beta del: run_steps.simps remove_files.simps
           split: option.splits)

lemma stop_ap_appends [simp]:
  "appends P w0 w \<Longrightarrow> \<forall>a. system_action a \<longrightarrow> P a
     \<Longrightarrow> appends P w0 (fst (snd (stop_ap e w ap)))"
  by (simp add: stop_ap_def split_beta split: option.splits)

section \<open>Properties of the orchestrator\<close>

subsection \<open>What the servers and the cleanup append to the trace\<close>

lemma teardown_action_simps [simp]:
  "teardown_action WriteEof" "teardown_action (SiteStop z)" "teardown_action (RunnerCleanup z)"
  "teardown_action StopInputStream" "teardown_action WsClose" "teardown_action ClientClose"
  "\<not> teardown_action (Call c)" "\<not> teardown_action (Transition x y)"
  "\<not> teardown_action (Notify x)" "\<not> teardown_action (RunnerSetup z)"
  "\<not> teardown_action (SiteStart z)" "\<not> teardown_action OpenInputStream"
  "\<not> teardown_action StartInputStream" "\<not> teardown_action WsServe"
  "\<not> teardown_action (CreateTask k)"
  by (simp_all add: teardown_action_def)

lemma close_clients_appends [simp]:
  "appends P w0 w \<Longrightarrow> P a \<Longrightarrow> appends P w0 (close_clients a n w)"
  by (induction n arbitrary: w) simp_all

lemma mjpeg_stop_appends [simp]:
  "appends P w0 w \<Longrightarrow> \<forall>a. teardown_action a \<longrightarrow> P a
     \<Longrightarrow> appends P w0 (fst (snd (mjpeg_stop e w v)))"
  by (simp add: mjpeg_stop_def split_beta Let_def split: option.splits)

lemma audio_stop_appends [simp]:
  "appends P w0 w \<Longrightarrow> \<forall>a. teardown_action a \<longrightarrow> P a
     \<Longrightarrow> appends P w0 (fst (snd (audio_stop e w v)))"
  by (simp add: audio_stop_def split_beta Let_def split: option.splits)

lemma portal_stop_appends [simp]:
  "appends P w0 w \<Longrightarrow> \<forall>a. teardown_action a \<longrightarrow> P a
     \<Longrightarrow> appends P w0 (fst (portal_stop e w p))"
  by (simp add: portal_stop_def split_beta Let_def split: option.splits)

lemma portal_start_appends [simp]:
  "appends P w0 w \<Longrightarrow> P (RunnerSetup PortalSite) \<Longrightarrow> P (SiteStart PortalSite)
     \<Longrightarrow> appends P w0 (fst (snd (portal_start e w p)))"
  by (simp add: portal_start_def split_beta Let_def split: option.splits)

lemma mjpeg_start_appends [simp]:
  "appends P w0 w \<Longrightarrow> \<forall>a. teardown_action a \<or> broadcaster_start_action a \<longrightarrow> P a
     \<Longrightarrow> appends P w0 (fst (snd (mjpeg_start e w cam v)))"
  by (simp add: mjpeg_start_def mjpeg_start_failed_def split_beta Let_def
                broadcaster_start_action_def split: option.splits)

lemma audio_start_appends [simp]:
  "appends P w0 w \<Longrightarrow> \<forall>a. teardown_action a \<or> broadcaster_start_action a \<longrightarrow> P a
     \<Longrightarrow> appends P w0 (fst (snd (audio_start e w v)))"
  by (simp add: audio_start_def split_beta Let_def
                broadcaster_start_action_def split: option.splits)

lemma set_state_appends [simp]:
  "appends P w0 w \<Longrightarrow> P (Transition (stream_state s) x) \<Longrightarrow> P (Notify x)
     \<Longrightarrow> appends P w0 (fst (set_state x w s))"
  by (simp add: set_state_def Let_def)

lemma cleanup_network_appends [simp]:
  "appends P w0 w \<Longrightarrow> \<forall>a. network_action a \<longrightarrow> P a
     \<Longrightarrow> appends P w0 (fst (cleanup_network e w s))"
  by (simp add: cleanup_network_def split_beta)

lemma cleanup_appends [simp]:
  "appends P w0 w \<Longrightarrow> P (Call ''_cleanup'')
     \<Longrightarrow> \<forall>a. teardown_action a \<or> network_action a \<longrightarrow> P a
     \<Longrightarrow> appends P w0 (fst (snd (cleanup e w s)))"
  by (simp add: cleanup_def split_beta Let_def split: option.splits)

lemma ensure_camera_appends [simp]:
  "appends P w0 w \<Longrightarrow> P CameraStart \<Longrightarrow> appends P w0 (fst (snd (ensure_camera e w s)))"
  by (simp add: ensure_camera_def split: option.splits)

lemma start_monitoring_appends [simp]:
  "appends P w0 w \<Longrightarrow> P (CreateTask TimeoutTask) \<Longrightarrow> P (CreateTask ClientCheckTask)
     \<Longrightarrow> appends P w0 (fst (start_monitoring w s))"
  by (simp add: start_monitoring_def)

lemma stop_monitoring_appends [simp]:
  "appends P w0 w \<Longrightarrow> P (CancelTask TimeoutTask) \<Longrightarrow> P (CancelTask ClientCheckTask)
     \<Longrightarrow> appends P w0 (fst (stop_monitoring w s))"
  by (simp add: stop_monitoring_def Let_def)

subsection \<open>Start and stop requests\<close>

text \<open>
  Claim C7.  A start request made while the state is neither \<open>IDLE\<close> nor \<open>ERROR\<close> returns
  \<open>False\<close> and leaves the orchestrator and the world as they were: no state change, no
  credential backup, no switch to access point mode, no server started.
\<close>

theorem start_rejected_unless_idle_or_error:
  assumes "stream_state s \<noteq> IDLE" and "stream_state s \<noteq> ERROR"
  shows "start_streaming e w s = (Inr False, w, s)"
  using assms by (simp add: start_streaming_def)

theorem start_rejected_unless_idle_or_error_witness:
  "start_streaming calm_env empty_world (live_service calm_env)
     = (Inr False, empty_world, live_service calm_env)"
  by (rule start_rejected_unless_idle_or_error)
     (simp_all add: live_service_def new_streaming_service_def)

text \<open>
  Claim C1.  \<^verbatim>\<open>_cleanup\<close> has no handler, and \<^verbatim>\<open>MJPEGServer.stop\<close> does not guard the stop of
  its site.  With a session that is up and a site whose stop raises, the exception
  leaves \<^verbatim>\<open>_cleanup\<close> after two actions: the audio broadcaster still runs, the access
  point is still active and \<^verbatim>\<open>restore_wifi\<close> was not called.
\<close>

theorem cleanup_escapes_when_video_site_stop_raises:
  "fst (cleanup stuck_site_env empty_world (live_service stuck_site_env))
     = Some ''site is not registered''
   \<and> trace (fst (snd (cleanup stuck_site_env empty_world (live_service stuck_site_env))))
     = [Call ''_cleanup'', SiteStop VideoSite]
   \<and> is_ap_active (ap_manager (snd (snd (cleanup stuck_site_env empty_world
                                              (live_service stuck_site_env)))))
   \<and> audio_is_running (audio_server (snd (snd (cleanup stuck_site_env empty_world
                                              (live_service stuck_site_env)))))"
  by code_simp

text \<open>
  Claim C8.  Of two stop requests in a row the first can raise: with a session that is
  up and the site of the video server stuck, the exception of \<^verbatim>\<open>_cleanup\<close> leaves
  \<^verbatim>\<open>stop_streaming\<close>, and the state stays \<open>STOPPING\<close>, so the second request is not
  made in \<open>IDLE\<close>.
\<close>

theorem first_stop_can_raise:
  "fst (stop_streaming stuck_site_env empty_world (live_service stuck_site_env))
     = Inl ''site is not registered''
   \<and> stream_state (snd (snd (stop_streaming stuck_site_env empty_world
                                 (live_service stuck_site_env)))) = STOPPING"
  by code_simp

lemma set_state_state [simp]: "stream_state (snd (set_state x w s)) = x"
  by (simp add: set_state_def Let_def)

lemma set_state_frame [simp]:
  "start_time (snd (set_state x w s)) = start_time s"
  "error_message (snd (set_state x w s)) = error_message s"
  "ap_manager (snd (set_state x w s)) = ap_manager s"
  "mjpeg_server (snd (set_state x w s)) = mjpeg_server s"
  "audio_server (snd (set_state x w s)) = audio_server s"
  "connectivity_server (snd (set_state x w s)) = connectivity_server s"
  "camera_service (snd (set_state x w s)) = camera_service s"
  "timeout_task (snd (set_state x w s)) = timeout_task s"
  "client_check_task (snd (set_state x w s)) = client_check_task s"
  "on_state_change (snd (set_state x w s)) = on_state_change s"
  by (simp_all add: set_state_def Let_def)

lemma set_state_same [simp]: "set_state (stream_state s) w s = (w, s)"
  by (simp add: set_state_def)

lemma stop_monitoring_frame [simp]:
  "stream_state (snd (stop_monitoring w s)) = stream_state s"
  "start_time (snd (stop_monitoring w s)) = start_time s"
  "error_message (snd (stop_monitoring w s)) = error_message s"
  by (simp_all add: stop_monitoring_def Let_def)

lemma cleanup_network_frame [simp]:
  "stream_state (snd (cleanup_network e w s)) = stream_state s"
  "start_time (snd (cleanup_network e w s)) = start_time s"
  "error_message (snd (cleanup_network e w s)) = error_message s"
  by (simp_all add: cleanup_network_def split_beta)

lemma cleanup_frame [simp]:
  "stream_state (snd (snd (cleanup e w s))) = stream_state s"
  "start_time (snd (snd (cleanup e w s))) = start_time s"
  "error_message (snd (snd (cleanup e w s))) = error_message s"
  by (simp_all add: cleanup_def split_beta Let_def split: option.splits)

lemma stop_streaming_returns':
  "fst (stop_streaming e w s) = Inr b \<Longrightarrow>
     b \<and> stream_state (snd (snd (stop_streaming e w s))) = IDLE
       \<and> error_message (snd (snd (stop_streaming e w s))) = error_message s
       \<and> (stream_state s \<noteq> IDLE \<longrightarrow> start_time (snd (snd (stop_streaming e w s))) = 0)"
  by (simp add: stop_streaming_def split_beta Let_def split: option.splits if_splits)

lemma stop_streaming_returns:
  assumes "stop_streaming e w s = (Inr b, w', s')"
  shows "b \<and> stream_state s' = IDLE \<and> error_message s' = error_message s
         \<and> (stream_state s \<noteq> IDLE \<longrightarrow> start_time s' = 0)"
  using stop_streaming_returns'[of e w s b] assms by simp

text \<open>
  What holds of the idempotence of stopping.  A stop request in state \<open>IDLE\<close> returns
  \<open>True\<close> and changes nothing; whenever a stop request returns, it returned \<open>True\<close>, the
  state is \<open>IDLE\<close>, and a second stop request returns \<open>True\<close> and changes nothing;
  \<^verbatim>\<open>stop_ap\<close> in \<open>CLIENT_MODE\<close> returns \<open>True\<close> and changes nothing.
\<close>

theorem second_stop_is_a_no_op:
  "(stream_state s = IDLE \<longrightarrow> stop_streaming e w s = (Inr True, w, s))
   \<and> (stop_streaming e w s = (Inr b, w1, s1)
        \<longrightarrow> b \<and> stream_state s1 = IDLE \<and> stop_streaming e w1 s1 = (Inr True, w1, s1))
   \<and> (state ap = CLIENT_MODE \<longrightarrow> stop_ap e w ap = (True, w, ap))"
proof (intro conjI impI)
  assume "stream_state s = IDLE"
  then show "stop_streaming e w s = (Inr True, w, s)" by (simp add: stop_streaming_def)
next
  assume a: "stop_streaming e w s = (Inr b, w1, s1)"
  from stop_streaming_returns[OF a] show b by simp
  from stop_streaming_returns[OF a] show "stream_state s1 = IDLE" by simp
  then show "stop_streaming e w1 s1 = (Inr True, w1, s1)" by (simp add: stop_streaming_def)
next
  assume "state ap = CLIENT_MODE"
  then show "stop_ap e w ap = (True, w, ap)" by (simp add: stop_ap_def)
qed

theorem second_stop_is_a_no_op_witness:
  "stop_streaming calm_env empty_world (fresh_service calm_env)
     = (Inr True, empty_world, fresh_service calm_env)
   \<and> stop_ap calm_env empty_world (new_ap_manager calm_env)
     = (True, empty_world, new_ap_manager calm_env)"
  using second_stop_is_a_no_op[of "fresh_service calm_env" calm_env empty_world
          True empty_world "fresh_service calm_env" "new_ap_manager calm_env"]
  by (simp add: fresh_service_def new_streaming_service_def new_ap_manager_def)

subsection \<open>Who sets the client mode\<close>

lemma restore_wifi_call_count:
  "occ (Call ''restore_wifi'') (fst (snd (restore_wifi e w ap)))
     = occ (Call ''restore_wifi'') w + 1"
proof -
  obtain ok w' ap' where r: "restore_wifi e w ap = (ok, w', ap')" by (metis surj_pair)
  from r have "occ (Call ''restore_wifi'') w' = occ (Call ''restore_wifi'') w + 1"
  proof (cases rule: restore_wifi_cases)
    case connected
    from restore_loop_occ[OF connected(1), of "''restore_wifi''"] show ?thesis by simp
  next
    case (fallback w1 x)
    have "w' = snd (hard_fallback e w1)" using fallback(2) by simp
    with restore_loop_occ[OF fallback(1), of "''restore_wifi''"]
      hard_fallback_occ(3)[where e=e and w=w1 and c="''restore_wifi''"]
    show ?thesis by simp
  qed
  with r show ?thesis by simp
qed

lemma restore_wifi_state:
  "state (snd (snd (restore_wifi e w ap)))
     = (if fst (restore_wifi e w ap) then CLIENT_MODE else AP_FAILED)"
  by (simp add: restore_wifi_def split_beta split: option.splits bool.splits)

lemma save_wifi_credentials_state [simp]:
  "state (snd (snd (save_wifi_credentials e w ap))) = state ap"
  by (simp add: save_wifi_credentials_def split_beta Let_def split: option.splits)

lemma create_hostapd_config_frame [simp]:
  "state (snd (snd (create_hostapd_config e w ap))) = state ap"
  "saved_credentials (snd (snd (create_hostapd_config e w ap))) = saved_credentials ap"
  "ap_ip (snd (snd (create_hostapd_config e w ap))) = ap_ip ap"
  by (simp_all add: create_hostapd_config_def split_beta split: option.splits)

lemma start_ap_body_frame [simp]:
  "state (snd (snd (start_ap_body e w ap))) = state ap"
  "saved_credentials (snd (snd (start_ap_body e w ap))) = saved_credentials ap"
  by (simp_all add: start_ap_body_def split_beta split: option.splits bool.splits)

lemma start_ap_body_no_call:
  "occ (Call c) (fst (snd (start_ap_body e w ap))) = occ (Call c) w"
  by (rule appends_occ[where P=system_action]) simp_all

lemma start_ap_client_mode:
  assumes "state (snd (snd (start_ap e w ap))) = CLIENT_MODE"
  shows "\<not> fst (start_ap e w ap)
         \<and> occ (Call ''restore_wifi'') (fst (snd (start_ap e w ap)))
             = occ (Call ''restore_wifi'') w + 1"
proof (cases "state ap = AP_READY")
  case True
  with assms show ?thesis by (simp add: start_ap_def)
next
  case False
  let ?b = "start_ap_body e w (ap\<lparr>state := AP_STARTING\<rparr>)"
  show ?thesis
  proof (cases "fst ?b")
    case None
    with False assms show ?thesis by (simp add: start_ap_def split_beta)
  next
    case (Some msg)
    with False have
      "start_ap e w ap = (False, snd (restore_wifi e (fst (snd ?b)) ((snd (snd ?b))\<lparr>state := AP_FAILED\<rparr>)))"
      by (simp add: start_ap_def split_beta)
    then show ?thesis
      by (simp add: restore_wifi_call_count start_ap_body_no_call)
  qed
qed

text \<open>
  Claim C10.  \<^verbatim>\<open>stop_ap\<close> called in a state other than \<open>CLIENT_MODE\<close> leaves the manager
  in \<open>AP_STOPPING\<close>, whatever it returns, so the access point is not active and the
  manager is not in \<open>CLIENT_MODE\<close>; in \<open>CLIENT_MODE\<close> it changes nothing.
  \<^verbatim>\<open>save_wifi_credentials\<close> keeps the state.  \<^verbatim>\<open>start_ap\<close> ends in \<open>CLIENT_MODE\<close> only
  when it failed and called \<^verbatim>\<open>restore_wifi\<close>.  \<^verbatim>\<open>restore_wifi\<close> sets \<open>CLIENT_MODE\<close>
  exactly when it returns \<open>True\<close>, and \<open>AP_FAILED\<close> otherwise.
\<close>

theorem only_restore_wifi_sets_client_mode:
  "(stop_ap e w ap = (ok, w', ap') \<longrightarrow>
      (state ap \<noteq> CLIENT_MODE \<longrightarrow>
         state ap' = AP_STOPPING \<and> \<not> is_ap_active ap' \<and> ap' = ap\<lparr>state := AP_STOPPING\<rparr>)
      \<and> (state ap = CLIENT_MODE \<longrightarrow> ok \<and> w' = w \<and> ap' = ap))
   \<and> (save_wifi_credentials e w ap = (ok1, w1, ap1) \<longrightarrow> state ap1 = state ap)
   \<and> (start_ap e w ap = (ok2, w2, ap2) \<and> state ap2 = CLIENT_MODE \<longrightarrow>
         \<not> ok2 \<and> occ (Call ''restore_wifi'') w2 = occ (Call ''restore_wifi'') w + 1)
   \<and> (restore_wifi e w ap = (ok3, w3, ap3) \<longrightarrow>
         ap3 = ap\<lparr>state := (if ok3 then CLIENT_MODE else AP_FAILED)\<rparr>)"
proof (intro conjI impI)
  assume a: "stop_ap e w ap = (ok, w', ap')"
  {
    assume "state ap \<noteq> CLIENT_MODE"
    with a have "ap' = ap\<lparr>state := AP_STOPPING\<rparr>"
      by (auto simp: stop_ap_def split: prod.splits option.splits)
    then show "ap' = ap\<lparr>state := AP_STOPPING\<rparr>" "state ap' = AP_STOPPING" "\<not> is_ap_active ap'"
      by (simp_all add: is_ap_active_def)
  }
  {
    assume "state ap = CLIENT_MODE"
    with a show ok "w' = w" "ap' = ap" by (simp_all add: stop_ap_def)
  }
next
  assume "save_wifi_credentials e w ap = (ok1, w1, ap1)"
  then show "state ap1 = state ap"
    using save_wifi_credentials_state[of e w ap] by simp
next
  assume a: "start_ap e w ap = (ok2, w2, ap2) \<and> state ap2 = CLIENT_MODE"
  then have "state (snd (snd (start_ap e w ap))) = CLIENT_MODE" by simp
  from start_ap_client_mode[OF this] a
  show "\<not> ok2" "occ (Call ''restore_wifi'') w2 = occ (Call ''restore_wifi'') w + 1"
    by simp_all
next
  assume "restore_wifi e w ap = (ok3, w3, ap3)"
  then show "ap3 = ap\<lparr>state := (if ok3 then CLIENT_MODE else AP_FAILED)\<rparr>"
    by (cases rule: restore_wifi_cases) auto
qed

theorem only_restore_wifi_sets_client_mode_witness:
  "fst (stop_ap calm_env empty_world ((new_ap_manager calm_env)\<lparr>state := AP_READY\<rparr>))
   \<and> state (snd (snd (stop_ap calm_env empty_world ((new_ap_manager calm_env)\<lparr>state := AP_READY\<rparr>))))
       = AP_STOPPING"
proof -
  let ?ap = "(new_ap_manager calm_env)\<lparr>state := AP_READY\<rparr>"
  let ?r = "stop_ap calm_env empty_world ?ap"
  have h: "?r = (fst ?r, fst (snd ?r), snd (snd ?r))" by simp
  have s: "state ?ap \<noteq> CLIENT_MODE" by simp
  have ok: "fst ?r" by code_simp
  from only_restore_wifi_sets_client_mode[of calm_env empty_world ?ap "fst ?r" "fst (snd ?r)"
      "snd (snd ?r)"] h s
  have "state (snd (snd ?r)) = AP_STOPPING" by blast
  with ok show ?thesis by simp
qed

subsection \<open>What a stop resets\<close>

lemma stop_streaming_last_transition:
  assumes "stream_state s \<noteq> IDLE" "fst (stop_streaming e w s) = Inr b"
  shows "occ (Transition STOPPING IDLE) (fst (snd (stop_streaming e w s)))
           = occ (Transition STOPPING IDLE) w + 1"
proof -
  let ?w1 = "fst (set_state STOPPING w s)" and ?s1 = "snd (set_state STOPPING w s)"
  let ?w2 = "fst (stop_monitoring ?w1 ?s1)" and ?s2 = "snd (stop_monitoring ?w1 ?s1)"
  let ?c = "cleanup e ?w2 ?s2"
  let ?w4 = "if start_time (snd (snd ?c)) > 0 then perform Now (fst (snd ?c)) else fst (snd ?c)"
  let ?s4 = "(snd (snd ?c))\<lparr>start_time := 0\<rparr>"
  have c: "fst ?c = None"
    using assms by (simp add: stop_streaming_def split_beta Let_def split: option.splits)
  have eq: "fst (snd (stop_streaming e w s)) = fst (set_state IDLE ?w4 ?s4)"
    using assms c by (simp add: stop_streaming_def split_beta Let_def)
  have "appends (\<lambda>a. a \<noteq> Transition STOPPING IDLE) w ?w4"
    by (simp add: teardown_action_def network_action_def system_action_def
             split: action.splits)
  then have o: "occ (Transition STOPPING IDLE) ?w4 = occ (Transition STOPPING IDLE) w"
    by (rule appends_occ) simp
  have "stream_state ?s4 = STOPPING" by simp
  then have "occ (Transition STOPPING IDLE) (fst (set_state IDLE ?w4 ?s4))
               = occ (Transition STOPPING IDLE) ?w4 + 1"
    by (simp add: set_state_def Let_def)
  with eq o show ?thesis by simp
qed

text \<open>
  Claim C5, as amended.  When a stop request made outside \<open>IDLE\<close> returns, the state
  went from \<open>STOPPING\<close> to \<open>IDLE\<close> and the start time is 0; the error message is the one
  recorded before the stop.
\<close>

theorem stop_resets_start_time_only:
  assumes "stream_state s \<noteq> IDLE" and "stop_streaming e w s = (Inr b, w', s')"
  shows "stream_state s' = IDLE \<and> start_time s' = 0 \<and> error_message s' = error_message s
         \<and> occ (Transition STOPPING IDLE) w' = occ (Transition STOPPING IDLE) w + 1"
  using stop_streaming_returns[OF assms(2)] assms(1)
    stop_streaming_last_transition[of s e w b] assms(2)
  by simp

text \<open>
  The error message is not cleared: after a start that failed on the camera and a stop,
  the orchestrator is in \<open>IDLE\<close> and still holds the message of the failed start.
\<close>

theorem error_message_survives_stop:
  "stream_state (snd failed_start) = ERROR
   \<and> error_message (snd failed_start) = ''Failed to start camera service''
   \<and> stream_state (snd (snd (stop_streaming broken_camera_env (fst failed_start)
                                 (snd failed_start)))) = IDLE
   \<and> error_message (snd (snd (stop_streaming broken_camera_env (fst failed_start)
                                  (snd failed_start)))) = ''Failed to start camera service''
   \<and> trace (fst (snd (stop_streaming broken_camera_env (fst failed_start) (snd failed_start))))
     = [Transition IDLE PREPARING, CameraStart, Transition PREPARING ERROR, Call ''_cleanup'',
        Transition ERROR STOPPING, Call ''_cleanup'', Transition STOPPING IDLE]"
  by code_simp

theorem stop_resets_start_time_only_witness:
  "stream_state (snd (snd (stop_streaming calm_env empty_world (live_service calm_env)))) = IDLE
   \<and> start_time (snd (snd (stop_streaming calm_env empty_world (live_service calm_env)))) = 0"
proof -
  let ?r = "stop_streaming calm_env empty_world (live_service calm_env)"
  have ok: "fst ?r = Inr True" by code_simp
  then have h: "?r = (Inr True, fst (snd ?r), snd (snd ?r))"
    by (metis prod.collapse)
  have s: "stream_state (live_service calm_env) \<noteq> IDLE"
    by (simp add: live_service_def new_streaming_service_def)
  from stop_resets_start_time_only[OF s h] show ?thesis by simp
qed

subsection \<open>The client monitor and the saved credentials\<close>

lemma await_cancelled_appends [simp]:
  "appends P w0 w \<Longrightarrow> P a \<Longrightarrow> appends P w0 (snd (await_cancelled e a w))"
  by (simp add: await_cancelled_def)


lemma close_clients_cancelled_appends [simp]:
  "appends P w0 w \<Longrightarrow> P a \<Longrightarrow> appends P w0 (snd (close_clients_cancelled e a n w))"
  by (induction n arbitrary: w) simp_all


lemma mjpeg_stop_cancelled_appends [simp]:
  "appends P w0 w \<Longrightarrow> \<forall>a. teardown_action a \<longrightarrow> P a
     \<Longrightarrow> appends P w0 (fst (snd (mjpeg_stop_cancelled e w v)))"
  by (simp add: mjpeg_stop_cancelled_def split_beta Let_def split: ending.splits bool.splits)


lemma audio_stop_cancelled_appends [simp]:
  "appends P w0 w \<Longrightarrow> \<forall>a. teardown_action a \<longrightarrow> P a
     \<Longrightarrow> appends P w0 (fst (snd (audio_stop_cancelled e w v)))"
  by (simp add: audio_stop_cancelled_def split_beta Let_def split: ending.splits bool.splits)


lemma portal_stop_cancelled_appends [simp]:
  "appends P w0 w \<Longrightarrow> \<forall>a. teardown_action a \<longrightarrow> P a
     \<Longrightarrow> appends P w0 (fst (snd (portal_stop_cancelled e w p)))"
  by (simp add: portal_stop_cancelled_def split_beta Let_def split: ending.splits)


lemma cleanup_network_cancelled_appends [simp]:
  "appends P w0 w \<Longrightarrow> \<forall>a. network_action a \<longrightarrow> P a
     \<Longrightarrow> appends P w0 (fst (snd (cleanup_network_cancelled e w s)))"
  by (simp add: cleanup_network_cancelled_def stop_ap_cancelled_def restore_wifi_cancelled_def
                split_beta network_action_def split: ending.splits)


lemma cleanup_cancelled_appends [simp]:
  "appends P w0 w \<Longrightarrow> P (Call ''_cleanup'')
     \<Longrightarrow> \<forall>a. teardown_action a \<or> network_action a \<longrightarrow> P a
     \<Longrightarrow> appends P w0 (fst (snd (cleanup_cancelled e w s)))"
  by (simp add: cleanup_cancelled_def split_beta Let_def split: ending.splits)

lemma cleanup_network_cancelled_frame [simp]:
  "stream_state (snd (snd (cleanup_network_cancelled e w s))) = stream_state s"
  "start_time (snd (snd (cleanup_network_cancelled e w s))) = start_time s"
  "error_message (snd (snd (cleanup_network_cancelled e w s))) = error_message s"
  "timeout_task (snd (snd (cleanup_network_cancelled e w s))) = timeout_task s"
  "client_check_task (snd (snd (cleanup_network_cancelled e w s))) = client_check_task s"
  by (simp_all add: cleanup_network_cancelled_def stop_ap_cancelled_def
                    restore_wifi_cancelled_def)

lemma cleanup_cancelled_frame [simp]:
  "stream_state (snd (snd (cleanup_cancelled e w s))) = stream_state s"
  "start_time (snd (snd (cleanup_cancelled e w s))) = start_time s"
  "error_message (snd (snd (cleanup_cancelled e w s))) = error_message s"
  "timeout_task (snd (snd (cleanup_cancelled e w s))) = timeout_task s"
  "client_check_task (snd (snd (cleanup_cancelled e w s))) = client_check_task s"
  by (simp_all add: cleanup_cancelled_def split_beta Let_def split: ending.splits)

lemma cleanup_network_tasks [simp]:
  "timeout_task (snd (cleanup_network e w s)) = timeout_task s"
  "client_check_task (snd (cleanup_network e w s)) = client_check_task s"
  by (simp_all add: cleanup_network_def split_beta)

lemma cleanup_tasks [simp]:
  "timeout_task (snd (snd (cleanup e w s))) = timeout_task s"
  "client_check_task (snd (snd (cleanup e w s))) = client_check_task s"
  by (simp_all add: cleanup_def split_beta Let_def split: option.splits)

lemma set_state_tasks [simp]:
  "timeout_task (snd (set_state x w s)) = timeout_task s"
  "client_check_task (snd (set_state x w s)) = client_check_task s"
  by (simp_all add: set_state_def Let_def)

lemma stop_monitoring_tasks [simp]:
  "\<not> timeout_task (snd (stop_monitoring w s))"
  "\<not> client_check_task (snd (stop_monitoring w s))"
  by (simp_all add: stop_monitoring_def Let_def)

lemma not_cleanup_call:
  "\<forall>a. teardown_action a \<longrightarrow> a \<noteq> Call ''_cleanup''"
  "\<forall>a. network_action a \<longrightarrow> a \<noteq> Call ''_cleanup''"
  "\<forall>a. teardown_action a \<or> network_action a \<longrightarrow> a \<noteq> Call ''_cleanup''"
  by auto

lemma cleanup_calls:
  "occ (Call ''_cleanup'') (fst (snd (cleanup e w s))) = occ (Call ''_cleanup'') w + 1"
proof -
  let ?w0 = "perform (Call ''_cleanup'') w"
  have "appends (\<lambda>a. a \<noteq> Call ''_cleanup'') ?w0 (fst (snd (cleanup e w s)))"
    by (simp add: cleanup_def split_beta Let_def not_cleanup_call split: option.splits)
  then have "occ (Call ''_cleanup'') (fst (snd (cleanup e w s))) = occ (Call ''_cleanup'') ?w0"
    by (rule appends_occ) simp
  then show ?thesis by simp
qed

lemma cleanup_cancelled_calls:
  "occ (Call ''_cleanup'') (fst (snd (cleanup_cancelled e w s))) = occ (Call ''_cleanup'') w + 1"
proof -
  let ?w0 = "perform (Call ''_cleanup'') w"
  have "appends (\<lambda>a. a \<noteq> Call ''_cleanup'') ?w0 (fst (snd (cleanup_cancelled e w s)))"
    by (simp add: cleanup_cancelled_def split_beta Let_def not_cleanup_call split: ending.splits)
  then have "occ (Call ''_cleanup'') (fst (snd (cleanup_cancelled e w s)))
               = occ (Call ''_cleanup'') ?w0"
    by (rule appends_occ) simp
  then show ?thesis by simp
qed

lemma set_state_calls [simp]: "occ (Call c) (fst (set_state x w s)) = occ (Call c) w"
  by (simp add: set_state_def Let_def)

lemma stop_monitoring_calls [simp]: "occ (Call c) (fst (stop_monitoring w s)) = occ (Call c) w"
  by (simp add: stop_monitoring_def Let_def)

lemma set_state_trace:
  "x \<noteq> stream_state s \<Longrightarrow>
     \<exists>ext. trace (fst (set_state x w s)) = trace w @ Transition (stream_state s) x # ext"
  by (simp add: set_state_def Let_def)

lemma appends_after:
  assumes "appends P w1 w2" "\<exists>ext. trace w1 = trace w @ a # ext"
  shows "take (Suc (now w)) (trace w2) = trace w @ [a]"
  using assms by (auto simp: appends_def now_def)

lemma stop_streaming_cancelled_begins:
  assumes "stream_state s \<noteq> STOPPING"
  shows "take (Suc (now w)) (trace (fst (snd (stop_streaming_cancelled e w s))))
           = trace w @ [Transition (stream_state s) STOPPING]"
    and "stream_state (snd (snd (stop_streaming_cancelled e w s))) = STOPPING
         \<or> stream_state (snd (snd (stop_streaming_cancelled e w s))) = IDLE"
    and "fst (stop_streaming_cancelled e w s) = Returned
         \<Longrightarrow> stream_state (snd (snd (stop_streaming_cancelled e w s))) = IDLE"
    and "\<not> timeout_task (snd (snd (stop_streaming_cancelled e w s)))"
    and "\<not> client_check_task (snd (snd (stop_streaming_cancelled e w s)))"
    and "occ (Call ''_cleanup'') (fst (snd (stop_streaming_cancelled e w s)))
           = occ (Call ''_cleanup'') w + 1"
proof -
  let ?w1 = "fst (set_state STOPPING w s)"
  have "appends (\<lambda>a. True) ?w1 (fst (snd (stop_streaming_cancelled e w s)))"
    by (simp add: stop_streaming_cancelled_def split_beta Let_def split: ending.splits)
  moreover have "\<exists>ext. trace ?w1 = trace w @ Transition (stream_state s) STOPPING # ext"
    using assms by (intro set_state_trace) simp
  ultimately show "take (Suc (now w)) (trace (fst (snd (stop_streaming_cancelled e w s))))
           = trace w @ [Transition (stream_state s) STOPPING]"
    by (rule appends_after)
  show "stream_state (snd (snd (stop_streaming_cancelled e w s))) = STOPPING
         \<or> stream_state (snd (snd (stop_streaming_cancelled e w s))) = IDLE"
    by (simp add: stop_streaming_cancelled_def split_beta Let_def split: ending.splits)
  show "fst (stop_streaming_cancelled e w s) = Returned
         \<Longrightarrow> stream_state (snd (snd (stop_streaming_cancelled e w s))) = IDLE"
    by (simp add: stop_streaming_cancelled_def split_beta Let_def split: ending.splits)
  show "\<not> timeout_task (snd (snd (stop_streaming_cancelled e w s)))"
    by (simp add: stop_streaming_cancelled_def split_beta Let_def split: ending.splits)
  show "\<not> client_check_task (snd (snd (stop_streaming_cancelled e w s)))"
    by (simp add: stop_streaming_cancelled_def split_beta Let_def split: ending.splits)
  show "occ (Call ''_cleanup'') (fst (snd (stop_streaming_cancelled e w s)))
           = occ (Call ''_cleanup'') w + 1"
    by (simp add: stop_streaming_cancelled_def split_beta Let_def cleanup_cancelled_calls
             split: ending.splits)
qed

lemma stop_streaming_begins:
  assumes "stream_state s \<noteq> STOPPING" "stream_state s \<noteq> IDLE"
  shows "take (Suc (now w)) (trace (fst (snd (stop_streaming e w s))))
           = trace w @ [Transition (stream_state s) STOPPING]"
    and "stream_state (snd (snd (stop_streaming e w s))) = STOPPING
         \<or> stream_state (snd (snd (stop_streaming e w s))) = IDLE"
    and "\<not> timeout_task (snd (snd (stop_streaming e w s)))"
    and "\<not> client_check_task (snd (snd (stop_streaming e w s)))"
    and "occ (Call ''_cleanup'') (fst (snd (stop_streaming e w s)))
           = occ (Call ''_cleanup'') w + 1"
proof -
  let ?w1 = "fst (set_state STOPPING w s)"
  have "appends (\<lambda>a. True) ?w1 (fst (snd (stop_streaming e w s)))"
    using assms(2) by (simp add: stop_streaming_def split_beta Let_def split: option.splits)
  moreover have "\<exists>ext. trace ?w1 = trace w @ Transition (stream_state s) STOPPING # ext"
    using assms by (intro set_state_trace) simp
  ultimately show "take (Suc (now w)) (trace (fst (snd (stop_streaming e w s))))
           = trace w @ [Transition (stream_state s) STOPPING]"
    by (rule appends_after)
  show "stream_state (snd (snd (stop_streaming e w s))) = STOPPING
         \<or> stream_state (snd (snd (stop_streaming e w s))) = IDLE"
    using assms(2) by (simp add: stop_streaming_def split_beta Let_def split: option.splits)
  show "\<not> timeout_task (snd (snd (stop_streaming e w s)))"
    using assms(2) by (simp add: stop_streaming_def split_beta Let_def split: option.splits)
  show "\<not> client_check_task (snd (snd (stop_streaming e w s)))"
    using assms(2) by (simp add: stop_streaming_def split_beta Let_def split: option.splits)
  show "occ (Call ''_cleanup'') (fst (snd (stop_streaming e w s)))
           = occ (Call ''_cleanup'') w + 1"
    using assms(2)
    by (simp add: stop_streaming_def split_beta Let_def cleanup_calls split: option.splits)
qed

lemma monitor_stop_begins:
  assumes "stream_state s \<noteq> STOPPING" "stream_state s \<noteq> IDLE"
  shows "fst (monitor_stop e me w s) \<noteq> Continue t"
    and "take (Suc (now w)) (trace (fst (snd (monitor_stop e me w s))))
           = trace w @ [Transition (stream_state s) STOPPING]"
    and "stream_state (snd (snd (monitor_stop e me w s))) = STOPPING
         \<or> stream_state (snd (snd (monitor_stop e me w s))) = IDLE"
    and "\<not> timeout_task (snd (snd (monitor_stop e me w s)))"
    and "\<not> client_check_task (snd (snd (monitor_stop e me w s)))"
    and "occ (Call ''_cleanup'') (fst (snd (monitor_stop e me w s)))
           = occ (Call ''_cleanup'') w + 1"
proof -
  note c = stop_streaming_cancelled_begins[OF assms(1), where w=w and e=e]
  note u = stop_streaming_begins[OF assms, where w=w and e=e]
  have eq: "snd (monitor_stop e me w s)
      = (if task_handle me s then snd (stop_streaming_cancelled e w s)
         else snd (stop_streaming e w s))"
    using assms(2)
    by (simp add: monitor_stop_def split_beta split: ending.splits sum.splits)
  show "fst (monitor_stop e me w s) \<noteq> Continue t"
    by (simp add: monitor_stop_def split_beta split: ending.splits sum.splits)
  show "take (Suc (now w)) (trace (fst (snd (monitor_stop e me w s))))
           = trace w @ [Transition (stream_state s) STOPPING]"
    using c(1) u(1) by (simp add: eq)
  show "stream_state (snd (snd (monitor_stop e me w s))) = STOPPING
         \<or> stream_state (snd (snd (monitor_stop e me w s))) = IDLE"
    using c(2) u(2) by (simp add: eq)
  show "\<not> timeout_task (snd (snd (monitor_stop e me w s)))"
    using c(4) u(3) by (simp add: eq)
  show "\<not> client_check_task (snd (snd (monitor_stop e me w s)))"
    using c(5) u(4) by (simp add: eq)
  show "occ (Call ''_cleanup'') (fst (snd (monitor_stop e me w s)))
           = occ (Call ''_cleanup'') w + 1"
    using c(6) u(5) by (simp add: eq)
qed


text \<open>
  Claim C9.  One pass of the client monitor in state \<open>READY\<close> or \<open>ACTIVE\<close>.  With a
  client connected the timer is unset and the state is \<open>ACTIVE\<close> afterwards (a
  transition when it was \<open>READY\<close>).  With no client in state \<open>ACTIVE\<close>: an unset timer
  is set to the current time; a set timer that has not reached
  \<^verbatim>\<open>STREAM_CLIENT_TIMEOUT\<close> is kept; a set timer that has reached it makes the pass call
  \<^verbatim>\<open>stop_streaming\<close>: the loop is left, the next action after reading the clock is the
  transition from \<open>ACTIVE\<close> to \<open>STOPPING\<close>, both monitors are cancelled and \<^verbatim>\<open>_cleanup\<close>
  is entered once.  How far the stop gets is not part of the claim: the state afterwards
  is \<open>STOPPING\<close> or \<open>IDLE\<close>.  The default timeout is 3600 seconds.
\<close>

theorem client_monitor_pass:
  assumes "stream_state s = READY \<or> stream_state s = ACTIVE"
  shows
    "(0 < video_clients (mjpeg_server s) + audio_client_count (audio_server s) \<longrightarrow>
        fst (client_monitor_body e timer w s) = Continue None
        \<and> snd (client_monitor_body e timer w s)
            = (if stream_state s = READY then set_state ACTIVE w s else (w, s))
        \<and> stream_state (snd (snd (client_monitor_body e timer w s))) = ACTIVE)
     \<and> (video_clients (mjpeg_server s) + audio_client_count (audio_server s) = 0
          \<and> stream_state s = ACTIVE \<longrightarrow>
          (timer = None \<longrightarrow>
             client_monitor_body e timer w s
               = (Continue (Some (clock e (now w))), perform Now w, s))
          \<and> (\<forall>since. timer = Some since
                \<and> clock e (now w) - since < real_of_int (STREAM_CLIENT_TIMEOUT (cfg e)) \<longrightarrow>
             client_monitor_body e timer w s = (Continue (Some since), perform Now w, s))
          \<and> (\<forall>since. timer = Some since
                \<and> clock e (now w) - since \<ge> real_of_int (STREAM_CLIENT_TIMEOUT (cfg e)) \<longrightarrow>
             client_monitor_body e timer w s = monitor_stop e ClientCheckTask (perform Now w) s
             \<and> (\<forall>t. fst (client_monitor_body e timer w s) \<noteq> Continue t)
             \<and> take (now w + 2) (trace (fst (snd (client_monitor_body e timer w s))))
                 = trace w @ [Now, Transition ACTIVE STOPPING]
             \<and> (stream_state (snd (snd (client_monitor_body e timer w s))) = STOPPING
                \<or> stream_state (snd (snd (client_monitor_body e timer w s))) = IDLE)
             \<and> \<not> timeout_task (snd (snd (client_monitor_body e timer w s)))
             \<and> \<not> client_check_task (snd (snd (client_monitor_body e timer w s)))
             \<and> occ (Call ''_cleanup'') (fst (snd (client_monitor_body e timer w s)))
                 = occ (Call ''_cleanup'') w + 1))
     \<and> STREAM_CLIENT_TIMEOUT default_settings = 3600"
proof (intro conjI impI allI)
  assume "0 < video_clients (mjpeg_server s) + audio_client_count (audio_server s)"
  then show "fst (client_monitor_body e timer w s) = Continue None"
    "snd (client_monitor_body e timer w s)
       = (if stream_state s = READY then set_state ACTIVE w s else (w, s))"
    "stream_state (snd (snd (client_monitor_body e timer w s))) = ACTIVE"
    using assms by (auto simp: client_monitor_body_def Let_def split: prod.splits)
next
  assume a: "video_clients (mjpeg_server s) + audio_client_count (audio_server s) = 0
             \<and> stream_state s = ACTIVE"
  {
    assume "timer = None"
    with a show "client_monitor_body e timer w s
               = (Continue (Some (clock e (now w))), perform Now w, s)"
      by (simp add: client_monitor_body_def)
  }
  {
    fix since
    assume "timer = Some since
            \<and> clock e (now w) - since < real_of_int (STREAM_CLIENT_TIMEOUT (cfg e))"
    with a show "client_monitor_body e timer w s = (Continue (Some since), perform Now w, s)"
      by (simp add: client_monitor_body_def)
  }
  {
    fix since
    assume "timer = Some since
            \<and> clock e (now w) - since \<ge> real_of_int (STREAM_CLIENT_TIMEOUT (cfg e))"
    with a have eq: "client_monitor_body e timer w s
                       = monitor_stop e ClientCheckTask (perform Now w) s"
      by (simp add: client_monitor_body_def)
    have st: "stream_state s \<noteq> STOPPING" "stream_state s \<noteq> IDLE" using a by simp_all
    note m = monitor_stop_begins[OF st, where e=e and me=ClientCheckTask and w="perform Now w"]
    show "client_monitor_body e timer w s = monitor_stop e ClientCheckTask (perform Now w) s"
      by (rule eq)
    show "fst (client_monitor_body e timer w s) \<noteq> Continue t" for t
      unfolding eq by (rule m(1))
    have "take (Suc (now (perform Now w))) (trace (fst (snd (client_monitor_body e timer w s))))
            = trace (perform Now w) @ [Transition (stream_state s) STOPPING]"
      unfolding eq by (rule m(2))
    then show "take (now w + 2) (trace (fst (snd (client_monitor_body e timer w s))))
                 = trace w @ [Now, Transition ACTIVE STOPPING]"
      using a by simp
    show "stream_state (snd (snd (client_monitor_body e timer w s))) = STOPPING
          \<or> stream_state (snd (snd (client_monitor_body e timer w s))) = IDLE"
      unfolding eq by (rule m(3))
    show "\<not> timeout_task (snd (snd (client_monitor_body e timer w s)))"
      unfolding eq by (rule m(4))
    show "\<not> client_check_task (snd (snd (client_monitor_body e timer w s)))"
      unfolding eq by (rule m(5))
    show "occ (Call ''_cleanup'') (fst (snd (client_monitor_body e timer w s)))
                 = occ (Call ''_cleanup'') w + 1"
      unfolding eq using m(6) by simp
  }
next
  show "STREAM_CLIENT_TIMEOUT default_settings = 3600"
    by (simp add: default_settings_def)
qed

theorem client_monitor_pass_witness:
  "client_monitor_body late_env None empty_world ((live_service late_env)\<lparr>stream_state := ACTIVE\<rparr>)
     = (Continue (Some 5000), perform Now empty_world,
        (live_service late_env)\<lparr>stream_state := ACTIVE\<rparr>)
   \<and> take 2 (trace (fst (snd (client_monitor_body late_env (Some 0) empty_world
                                 ((live_service late_env)\<lparr>stream_state := ACTIVE\<rparr>)))))
     = [Now, Transition ACTIVE STOPPING]
   \<and> fst (client_monitor_body late_env (Some 0) empty_world
             ((live_service late_env)\<lparr>stream_state := ACTIVE\<rparr>)) = Interrupted
   \<and> stream_state (snd (snd (client_monitor_body late_env (Some 0) empty_world
                                 ((live_service late_env)\<lparr>stream_state := ACTIVE\<rparr>)))) = STOPPING
   \<and> is_ap_active (ap_manager (snd (snd (client_monitor_body late_env (Some 0) empty_world
                                 ((live_service late_env)\<lparr>stream_state := ACTIVE\<rparr>)))))"
proof -
  let ?s = "(live_service late_env)\<lparr>stream_state := ACTIVE\<rparr>"
  have s: "stream_state ?s = READY \<or> stream_state ?s = ACTIVE" by simp
  have c: "video_clients (mjpeg_server ?s) + audio_client_count (audio_server ?s) = 0
           \<and> stream_state ?s = ACTIVE"
    by (simp add: live_service_def new_streaming_service_def audio_client_count_def)
  have k: "clock late_env (now empty_world) = 5000"
    "real_of_int (STREAM_CLIENT_TIMEOUT (cfg late_env)) = 3600"
    "now empty_world = 0" "trace empty_world = []"
    by (simp_all add: late_env_def calm_env_def default_settings_def now_def empty_world_def)
  note a = client_monitor_pass[OF s, of late_env None empty_world]
  note b = client_monitor_pass[OF s, of late_env "Some 0" empty_world]
  from a c k have 1: "client_monitor_body late_env None empty_world ?s
                        = (Continue (Some 5000), perform Now empty_world, ?s)"
    by simp
  have h: "Some (0::real) = Some 0
           \<and> clock late_env (now empty_world) - 0
               \<ge> real_of_int (STREAM_CLIENT_TIMEOUT (cfg late_env))"
    using k by simp
  from b c h have "take (now empty_world + 2)
                     (trace (fst (snd (client_monitor_body late_env (Some 0) empty_world ?s))))
                     = trace empty_world @ [Now, Transition ACTIVE STOPPING]"
    by blast
  then have 2: "take 2 (trace (fst (snd (client_monitor_body late_env (Some 0)
                                           empty_world ?s))))
                  = [Now, Transition ACTIVE STOPPING]"
    by (simp add: k numeral_2_eq_2)
  have 3: "(case client_monitor_body late_env (Some 0) empty_world ?s of
              (r, w, s') \<Rightarrow> (r, stream_state s', is_ap_active (ap_manager s')))
             = (Interrupted, STOPPING, True)"
    by code_simp
  from 1 2 3 show ?thesis by (simp add: split_beta)
qed

lemma stop_ap_credentials [simp]:
  "saved_credentials (snd (snd (stop_ap e w ap))) = saved_credentials ap"
  by (simp add: stop_ap_def split_beta split: option.splits)

lemma restore_wifi_credentials [simp]:
  "saved_credentials (snd (snd (restore_wifi e w ap))) = saved_credentials ap"
  by (simp add: restore_wifi_def split_beta split: option.splits bool.splits)

lemma start_ap_credentials [simp]:
  "saved_credentials (snd (snd (start_ap e w ap))) = saved_credentials ap"
  by (simp add: start_ap_def split_beta split: option.splits)

text \<open>
  Claim C4, as amended.  The credentials that \<^verbatim>\<open>save_wifi_credentials\<close> stored are kept
  unchanged by \<^verbatim>\<open>start_ap\<close>, \<^verbatim>\<open>stop_ap\<close> and \<^verbatim>\<open>restore_wifi\<close>, and
  \<^verbatim>\<open>restore_wifi\<close> does not read them: with any other stored credentials it returns
  the same result and performs the same actions.
\<close>

theorem restore_wifi_ignores_saved_credentials:
  "saved_credentials (snd (snd (start_ap e w ap))) = saved_credentials ap
   \<and> saved_credentials (snd (snd (stop_ap e w ap))) = saved_credentials ap
   \<and> saved_credentials (snd (snd (restore_wifi e w ap))) = saved_credentials ap
   \<and> restore_wifi e w (ap\<lparr>saved_credentials := c\<rparr>)
       = (fst (restore_wifi e w ap), fst (snd (restore_wifi e w ap)),
          (snd (snd (restore_wifi e w ap)))\<lparr>saved_credentials := c\<rparr>)"
  by (simp add: restore_wifi_def split_beta split: option.splits bool.splits)

theorem restore_wifi_ignores_saved_credentials_witness:
  "restore_wifi calm_env empty_world
     ((new_ap_manager calm_env)\<lparr>saved_credentials :=
        Some \<lparr>ssid = ''HomeNet'', password = ''hunter22'', key_mgmt = ''WPA-PSK''\<rparr>\<rparr>)
   = (fst (restore_wifi calm_env empty_world (new_ap_manager calm_env)),
      fst (snd (restore_wifi calm_env empty_world (new_ap_manager calm_env))),
      (snd (snd (restore_wifi calm_env empty_world (new_ap_manager calm_env))))
        \<lparr>saved_credentials :=
           Some \<lparr>ssid = ''HomeNet'', password = ''hunter22'', key_mgmt = ''WPA-PSK''\<rparr>\<rparr>)"
  using restore_wifi_ignores_saved_credentials[of calm_env empty_world "new_ap_manager calm_env"
          "Some \<lparr>ssid = ''HomeNet'', password = ''hunter22'', key_mgmt = ''WPA-PSK''\<rparr>"]
  by blast

text \<open>
  The backup captures the pair of the client configuration, and the restore that
  follows runs the same commands as a restore with no credentials stored; none of them
  carries the pair.
\<close>

theorem restore_wifi_passes_no_credentials:
  "saved_credentials (snd (snd (save_wifi_credentials calm_env empty_world
                                   (new_ap_manager calm_env))))
     = Some \<lparr>ssid = ''HomeNet'', password = ''hunter22'', key_mgmt = ''WPA-PSK''\<rparr>
   \<and> trace (fst (snd (restore_wifi calm_env empty_world
              (snd (snd (save_wifi_credentials calm_env empty_world (new_ap_manager calm_env)))))))
     = [Call ''restore_wifi'', Cmd reattach_cmd, Sleep, Cmd ''sudo ip addr flush dev wlan0'',
        Sleep, Cmd ''sudo systemctl start wpa_supplicant'', Sleep, Cmd ''sudo dhclient wlan0'',
        Sleep, Cmd verify_cmd]
   \<and> trace (fst (snd (restore_wifi calm_env empty_world (new_ap_manager calm_env))))
     = [Call ''restore_wifi'', Cmd reattach_cmd, Sleep, Cmd ''sudo ip addr flush dev wlan0'',
        Sleep, Cmd ''sudo systemctl start wpa_supplicant'', Sleep, Cmd ''sudo dhclient wlan0'',
        Sleep, Cmd verify_cmd]
   \<and> saved_credentials (new_ap_manager calm_env) = None"
  by code_simp

subsection \<open>Fatal steps of the switch to access point mode\<close>

lemma checked_command_result:
  "fst (fst (run_command_async e c True w)) = launches (proc e c (now w))"
  by (simp add: run_command_async_def launches_def split: proc_outcome.splits)

lemma liveness_result:
  "(fst (fst (run_command_async e pgrep_cmd False w))
      \<and> \<not> blank (snd (fst (run_command_async e pgrep_cmd False w))))
     = alive (proc e pgrep_cmd (now w))"
  by (simp add: run_command_async_def alive_def split: proc_outcome.splits)

lemma restore_wifi_by_run:
  "restore_wifi e w ap =
     (fst (restore_wifi_run e w), snd (restore_wifi_run e w),
      ap\<lparr>state := (if fst (restore_wifi_run e w) then CLIENT_MODE else AP_FAILED)\<rparr>)"
  by (simp add: restore_wifi_def restore_wifi_run_def split_beta split: bool.splits option.splits)

lemma start_ap_by_run:
  "state ap \<noteq> AP_READY \<Longrightarrow>
   start_ap e w ap =
     (fst (fst (start_ap_run e w ap)), fst (snd (start_ap_run e w ap)),
      (snd (snd (start_ap_run e w ap)))\<lparr>state := snd (fst (start_ap_run e w ap))\<rparr>)"
  by (simp add: start_ap_def start_ap_run_def restore_wifi_by_run split_beta split: option.splits)


lemma failed_is_fatal: "failed_fatal_step e a t \<Longrightarrow> fatal_action a"
  by (auto simp: failed_fatal_step_def fatal_action_def split: action.splits)

lemma failed_fatal_step_simps [simp]:
  "failed_fatal_step e (WriteFile HOSTAPD_CONF) t = (fault e (WriteFile HOSTAPD_CONF) t \<noteq> None)"
  "failed_fatal_step e (WriteFile DNSMASQ_CONF) t = (fault e (WriteFile DNSMASQ_CONF) t \<noteq> None)"
  "failed_fatal_step e (Cmd hostapd_cmd) t = (\<not> launches (proc e hostapd_cmd t))"
  "failed_fatal_step e (Cmd dnsmasq_cmd) t = (\<not> launches (proc e dnsmasq_cmd t))"
  "failed_fatal_step e (Cmd pgrep_cmd) t = (\<not> alive (proc e pgrep_cmd t))"
  by (simp_all add: failed_fatal_step_def hostapd_cmd_def dnsmasq_cmd_def pgrep_cmd_def
                    HOSTAPD_CONF_def DNSMASQ_CONF_def)

lemma unharmed_refl [simp, intro]: "unharmed e w w"
  by (simp add: unharmed_def fatal_step_fails_def)

lemma unharmed_trans:
  assumes "unharmed e w w1" "unharmed e w1 w2"
  shows "unharmed e w w2"
proof -
  from assms obtain x1 x2 where x: "trace w1 = trace w @ x1" "trace w2 = trace w1 @ x2"
    by (auto simp: unharmed_def)
  have "\<not> failed_fatal_step e (trace w2 ! t) t" if t: "now w \<le> t" "t < now w2" for t
  proof (cases "t < now w1")
    case True
    then have "trace w2 ! t = trace w1 ! t"
      using x(2) by (simp add: now_def nth_append)
    with True t assms(1) show ?thesis by (simp add: unharmed_def fatal_step_fails_def)
  next
    case False
    with t assms(2) show ?thesis by (simp add: unharmed_def fatal_step_fails_def)
  qed
  then show ?thesis using x by (auto simp: unharmed_def fatal_step_fails_def)
qed

lemma unharmed_perform_iff [simp]:
  assumes "unharmed e w0 w"
  shows "unharmed e w0 (perform a w) = (\<not> failed_fatal_step e a (now w))"
proof -
  from assms obtain x where x: "trace w = trace w0 @ x" by (auto simp: unharmed_def)
  have le: "now w0 \<le> now w" using x by (simp add: now_def)
  show ?thesis
  proof
    assume u: "unharmed e w0 (perform a w)"
    have "trace (perform a w) ! now w = a" by (simp add: now_def)
    with u le show "\<not> failed_fatal_step e a (now w)"
      unfolding unharmed_def fatal_step_fails_def
      by (metis atLeastLessThan_iff lessI now_perform)
  next
    assume n: "\<not> failed_fatal_step e a (now w)"
    have "\<not> failed_fatal_step e (trace (perform a w) ! t) t"
      if t: "now w0 \<le> t" "t < now (perform a w)" for t
    proof (cases "t < now w")
      case True
      then have "trace (perform a w) ! t = trace w ! t" by (simp add: now_def nth_append)
      with True t assms show ?thesis by (simp add: unharmed_def fatal_step_fails_def)
    next
      case False
      with t have "t = now w" by simp
      with n show ?thesis by (simp add: now_def)
    qed
    then show "unharmed e w0 (perform a w)"
      using x by (auto simp: unharmed_def fatal_step_fails_def)
  qed
qed

lemma appends_unharmed:
  assumes "unharmed e w0 w" "appends (\<lambda>a. \<not> fatal_action a) w w'"
  shows "unharmed e w0 w'"
proof -
  from assms(2) obtain ext where ext: "trace w' = trace w @ ext" "list_all (\<lambda>a. \<not> fatal_action a) ext"
    by (auto simp: appends_def)
  have "\<not> failed_fatal_step e (trace w' ! t) t" if t: "now w \<le> t" "t < now w'" for t
  proof -
    have "trace w' ! t = ext ! (t - now w)"
      using t ext(1) by (simp add: now_def nth_append)
    moreover have "t - now w < length ext"
      using t ext(1) by (simp add: now_def)
    ultimately have "\<not> fatal_action (trace w' ! t)"
      using ext(2) by (simp add: list_all_length)
    then show ?thesis using failed_is_fatal by blast
  qed
  then have "unharmed e w w'"
    using ext(1) by (auto simp: unharmed_def fatal_step_fails_def)
  with assms(1) show ?thesis by (rule unharmed_trans)
qed

lemma unharmed_but_last_perform [simp]:
  assumes "unharmed e w0 w"
  shows "unharmed_but_last e w0 (perform a w)"
proof -
  from assms obtain x where x: "trace w = trace w0 @ x" by (auto simp: unharmed_def)
  have "Suc t = now (perform a w)"
    if t: "now w0 \<le> t" "t < now (perform a w)" "failed_fatal_step e (trace (perform a w) ! t) t" for t
  proof (cases "t < now w")
    case True
    then have "trace (perform a w) ! t = trace w ! t" by (simp add: now_def nth_append)
    with True t assms show ?thesis by (simp add: unharmed_def fatal_step_fails_def)
  next
    case False
    with t show ?thesis by simp
  qed
  then show ?thesis using x by (auto simp: unharmed_but_last_def)
qed

lemma unharmed_but_last_weaken [simp]:
  "unharmed e w0 w \<Longrightarrow> unharmed_but_last e w0 w"
  by (auto simp: unharmed_def unharmed_but_last_def fatal_step_fails_def)

lemma nonfatal_simps [simp]:
  "\<not> fatal_action Sleep" "\<not> fatal_action (Call c)" "\<not> fatal_action (Transition x y)"
  "\<not> fatal_action (Notify x)" "\<not> fatal_action CameraStart" "\<not> fatal_action Now"
  "\<not> fatal_action (Exists p)" "\<not> fatal_action (ReadFile p)" "\<not> fatal_action (RemoveFile p)"
  "\<not> fatal_action GenPassword" "\<not> fatal_action (CreateTask k)" "\<not> fatal_action (CancelTask k)"
  "\<not> fatal_action (RunnerSetup z)" "\<not> fatal_action (SiteStart z)"
  "\<not> fatal_action (WriteFile WIFI_BACKUP_FILE)"
  "teardown_action a \<Longrightarrow> \<not> fatal_action a"
  "broadcaster_start_action a \<Longrightarrow> \<not> fatal_action a"
  by (auto simp: fatal_action_def teardown_action_def broadcaster_start_action_def
                 WIFI_BACKUP_FILE_def HOSTAPD_CONF_def DNSMASQ_CONF_def)

lemma run_steps_appends_list:
  "appends P w0 w \<Longrightarrow> list_all (\<lambda>s. P (step_action s)) ss
     \<Longrightarrow> appends P w0 (snd (run_steps e ss w))"
proof (induction ss arbitrary: w)
  case Nil
  then show ?case by simp
next
  case (Cons s ss)
  then show ?case
    by (cases s) (simp_all add: split_beta sleep_def attempt_def split: option.splits)
qed

lemma nonfatal_steps:
  "list_all (\<lambda>s. \<not> fatal_action (step_action s)) attempt_steps"
  "list_all (\<lambda>s. \<not> fatal_action (step_action s)) fallback_steps"
  "list_all (\<lambda>s. \<not> fatal_action (step_action s)) (prepare_steps ap)"
  "list_all (\<lambda>s. \<not> fatal_action (step_action s))
     [Run ''sudo killall hostapd'' False, Run ''sudo killall dnsmasq'' False, Nap]"
  "\<not> fatal_action (Cmd verify_cmd)"
  by (simp_all add: attempt_steps_def fallback_steps_def prepare_steps_def fatal_action_def
                    hostapd_cmd_def dnsmasq_cmd_def pgrep_cmd_def reattach_cmd_def
                    link_down_cmd_def verify_cmd_def HOSTAPD_CONF_def DNSMASQ_CONF_def)

lemma restore_attempt_nonfatal:
  "appends (\<lambda>a. \<not> fatal_action a) w0 w
     \<Longrightarrow> appends (\<lambda>a. \<not> fatal_action a) w0 (snd (restore_attempt e w))"
  by (simp add: restore_attempt_def split_beta run_steps_appends_list nonfatal_steps
           split: option.splits)

lemma restore_loop_nonfatal:
  "appends (\<lambda>a. \<not> fatal_action a) w0 w
     \<Longrightarrow> appends (\<lambda>a. \<not> fatal_action a) w0 (snd (restore_loop e n w))"
  by (induction n arbitrary: w)
     (simp_all add: split_beta restore_attempt_nonfatal split: attempt_result.splits)

lemma restore_wifi_run_nonfatal:
  "appends (\<lambda>a. \<not> fatal_action a) w0 w
     \<Longrightarrow> appends (\<lambda>a. \<not> fatal_action a) w0 (snd (restore_wifi_run e w))"
  by (simp add: restore_wifi_run_def hard_fallback_def split_beta restore_loop_nonfatal
                run_steps_appends_list nonfatal_steps
           split: option.splits bool.splits)

lemma restore_wifi_nonfatal:
  "appends (\<lambda>a. \<not> fatal_action a) w0 w
     \<Longrightarrow> appends (\<lambda>a. \<not> fatal_action a) w0 (fst (snd (restore_wifi e w ap)))"
  by (simp add: restore_wifi_by_run restore_wifi_run_nonfatal)

lemma remove_files_nonfatal:
  "appends (\<lambda>a. \<not> fatal_action a) w0 w
     \<Longrightarrow> appends (\<lambda>a. \<not> fatal_action a) w0 (snd (remove_files e ps w))"
  by (induction ps arbitrary: w)
     (simp_all add: split_beta Let_def attempt_def split: option.splits)

lemma stop_ap_body_nonfatal:
  assumes "appends (\<lambda>a. \<not> fatal_action a) w0 w"
  shows "appends (\<lambda>a. \<not> fatal_action a) w0 (snd (stop_ap_body e w))"
proof -
  let ?ss = "[Run ''sudo killall hostapd'' False, Run ''sudo killall dnsmasq'' False, Nap]"
  have a: "appends (\<lambda>a. \<not> fatal_action a) w0 (snd (run_steps e ?ss w))"
    by (rule run_steps_appends_list[OF assms nonfatal_steps(4)])
  have b: "appends (\<lambda>a. \<not> fatal_action a) w0
             (snd (remove_files e [HOSTAPD_CONF, DNSMASQ_CONF] (snd (run_steps e ?ss w))))"
    by (rule remove_files_nonfatal[OF a])
  show ?thesis
    unfolding stop_ap_body_def using a b
    by (simp add: split_beta del: run_steps.simps remove_files.simps split: option.splits)
qed

lemma stop_ap_nonfatal:
  "appends (\<lambda>a. \<not> fatal_action a) w0 w
     \<Longrightarrow> appends (\<lambda>a. \<not> fatal_action a) w0 (fst (snd (stop_ap e w ap)))"
  by (simp add: stop_ap_def split_beta stop_ap_body_nonfatal split: option.splits)

lemma save_wifi_credentials_nonfatal:
  "appends (\<lambda>a. \<not> fatal_action a) w0 w
     \<Longrightarrow> appends (\<lambda>a. \<not> fatal_action a) w0 (fst (snd (save_wifi_credentials e w ap)))"
  by (simp add: save_wifi_credentials_def split_beta Let_def split: option.splits)

lemma cleanup_nonfatal:
  "appends (\<lambda>a. \<not> fatal_action a) w0 w
     \<Longrightarrow> appends (\<lambda>a. \<not> fatal_action a) w0 (fst (snd (cleanup e w s)))"
  by (simp add: cleanup_def cleanup_network_def split_beta Let_def stop_ap_nonfatal
                restore_wifi_nonfatal split: option.splits)

lemma start_servers_nonfatal:
  "appends (\<lambda>a. \<not> fatal_action a) w0 w
     \<Longrightarrow> appends (\<lambda>a. \<not> fatal_action a) w0 (fst (snd (start_servers e w s)))"
  by (simp add: start_servers_def split_beta Let_def split: sum.splits bool.splits)

lemma nonfatal_not_failed [simp]: "\<not> fatal_action a \<Longrightarrow> \<not> failed_fatal_step e a t"
  using failed_is_fatal by blast

lemma unharmed_run_steps:
  assumes "unharmed e w0 w" "list_all (\<lambda>s. \<not> fatal_action (step_action s)) ss"
  shows "unharmed e w0 (snd (run_steps e ss w))"
  by (rule appends_unharmed[OF assms(1)]) (rule run_steps_appends_list[OF appends_refl assms(2)])

lemma create_hostapd_config_unharmed:
  assumes "unharmed e w0 w"
  shows "fst (create_hostapd_config e w ap)
           \<Longrightarrow> unharmed e w0 (fst (snd (create_hostapd_config e w ap)))"
    and "unharmed_but_last e w0 (fst (snd (create_hostapd_config e w ap)))"
  using assms
  by (simp_all add: create_hostapd_config_def split_beta split: option.splits if_splits)

lemma create_dnsmasq_config_unharmed:
  assumes "unharmed e w0 w"
  shows "fst (create_dnsmasq_config e w) \<Longrightarrow> unharmed e w0 (snd (create_dnsmasq_config e w))"
    and "unharmed_but_last e w0 (snd (create_dnsmasq_config e w))"
  using assms
  by (simp_all add: create_dnsmasq_config_def split_beta split: option.splits if_splits)

lemma checked_command_unharmed:
  assumes "unharmed e w0 w" "c = hostapd_cmd \<or> c = dnsmasq_cmd"
  shows "fst (fst (run_command_async e c True w))
           \<Longrightarrow> unharmed e w0 (snd (run_command_async e c True w))"
    and "unharmed_but_last e w0 (snd (run_command_async e c True w))"
  using assms by (auto simp: checked_command_result)

lemma liveness_check_unharmed:
  assumes "unharmed e w0 w"
  shows "fst (fst (run_command_async e pgrep_cmd False w))
           \<Longrightarrow> \<not> blank (snd (fst (run_command_async e pgrep_cmd False w)))
           \<Longrightarrow> unharmed e w0 (snd (run_command_async e pgrep_cmd False w))"
    and "unharmed_but_last e w0 (snd (run_command_async e pgrep_cmd False w))"
  using assms liveness_result[of e w] by auto

lemma unharmed_sleep:
  "unharmed e w0 w \<Longrightarrow> unharmed e w0 (snd (sleep e w))"
  by simp

lemma unchecked_command_outcome:
  "fst (run_command_async e c False w)
     = (case proc e c (now w) of
          Exited rc out err \<Rightarrow> (True, out)
        | TimedOut \<Rightarrow> (False, ''Command timed out'')
        | SpawnError msg \<Rightarrow> (False, msg))"
  by (simp add: run_command_async_def split: proc_outcome.splits)

lemma start_ap_body_unharmed_cases:
  assumes "unharmed e w0 w"
  shows "(case fst (start_ap_body e w ap) of
            None \<Rightarrow> unharmed e w0 (fst (snd (start_ap_body e w ap)))
          | Some msg \<Rightarrow> unharmed_but_last e w0 (fst (snd (start_ap_body e w ap))))"
  using assms
  by (simp add: start_ap_body_def split_beta create_hostapd_config_unharmed
                create_dnsmasq_config_unharmed unharmed_run_steps nonfatal_steps
                checked_command_result unchecked_command_outcome alive_def
           split: option.splits bool.splits proc_outcome.splits)

lemma start_ap_body_unharmed:
  assumes "unharmed e w0 w"
  shows "fst (start_ap_body e w ap) = None
           \<Longrightarrow> unharmed e w0 (fst (snd (start_ap_body e w ap)))"
    and "unharmed_but_last e w0 (fst (snd (start_ap_body e w ap)))"
  using start_ap_body_unharmed_cases[OF assms, of ap]
  by (auto split: option.splits)


lemma restore_wifi_trace:
  "\<exists>ext. trace (fst (snd (restore_wifi e w ap))) = trace w @ Call ''restore_wifi'' # ext
         \<and> list_all (\<lambda>a. \<not> fatal_action a) ext"
proof -
  let ?w0 = "perform (Call ''restore_wifi'') w"
  have "appends (\<lambda>a. \<not> fatal_action a) ?w0 (fst (snd (restore_wifi e w ap)))"
    by (simp add: restore_wifi_def hard_fallback_def split_beta restore_loop_nonfatal
                  run_steps_appends_list nonfatal_steps
             split: option.splits bool.splits)
  then show ?thesis by (auto simp: appends_def)
qed

lemma start_ap_true_unharmed:
  assumes "unharmed e w0 w" "fst (start_ap e w ap)"
  shows "unharmed e w0 (fst (snd (start_ap e w ap)))"
proof (cases "state ap = AP_READY")
  case True
  with assms show ?thesis by (simp add: start_ap_def)
next
  case False
  let ?b = "start_ap_body e w (ap\<lparr>state := AP_STARTING\<rparr>)"
  from assms(2) False have n: "fst ?b = None"
    by (simp add: start_ap_def split_beta split: option.splits)
  with False have "fst (snd (start_ap e w ap)) = fst (snd ?b)"
    by (simp add: start_ap_def split_beta)
  with start_ap_body_unharmed(1)[OF assms(1) n] show ?thesis by simp
qed

lemma start_ap_false:
  assumes "\<not> fst (start_ap e w ap)"
  shows "state ap \<noteq> AP_READY"
    and "fst (start_ap_body e w (ap\<lparr>state := AP_STARTING\<rparr>)) \<noteq> None"
    and "start_ap e w ap
           = (False, snd (restore_wifi e (fst (snd (start_ap_body e w (ap\<lparr>state := AP_STARTING\<rparr>))))
                ((snd (snd (start_ap_body e w (ap\<lparr>state := AP_STARTING\<rparr>))))\<lparr>state := AP_FAILED\<rparr>)))"
  using assms by (auto simp: start_ap_def split_beta split: option.splits if_splits)

lemma failed_start_ap:
  assumes "\<not> fst (start_ap e w ap)"
  shows "state (snd (snd (start_ap_run e w ap))) = AP_FAILED"
    and "start_ap e w ap
           = (False, fst (snd (start_ap_run e w ap)),
              (snd (snd (start_ap_run e w ap)))\<lparr>state := snd (fst (start_ap_run e w ap))\<rparr>)"
    and "occ (Call ''restore_wifi'') (fst (snd (start_ap e w ap)))
           = occ (Call ''restore_wifi'') w + 1"
    and "\<forall>t\<in>{now w..<now (fst (snd (start_ap e w ap)))}.
           failed_fatal_step e (trace (fst (snd (start_ap e w ap))) ! t) t
           \<longrightarrow> trace (fst (snd (start_ap e w ap))) ! Suc t = Call ''restore_wifi''"
proof -
  let ?b = "start_ap_body e w (ap\<lparr>state := AP_STARTING\<rparr>)"
  let ?w1 = "fst (snd ?b)"
  let ?W = "fst (snd (start_ap e w ap))"
  note f = start_ap_false[OF assms]
  from f(2) show "state (snd (snd (start_ap_run e w ap))) = AP_FAILED"
    by (auto simp: start_ap_run_def split_beta split: option.splits)
  from assms show "start_ap e w ap
           = (False, fst (snd (start_ap_run e w ap)),
              (snd (snd (start_ap_run e w ap)))\<lparr>state := snd (fst (start_ap_run e w ap))\<rparr>)"
    using start_ap_by_run[OF f(1), of e w] by simp
  show "occ (Call ''restore_wifi'') ?W = occ (Call ''restore_wifi'') w + 1"
    by (simp add: f(3) restore_wifi_call_count start_ap_body_no_call)
  have W: "?W = fst (snd (restore_wifi e ?w1 ((snd (snd ?b))\<lparr>state := AP_FAILED\<rparr>)))"
    by (simp add: f(3))
  from restore_wifi_trace[of e ?w1 "(snd (snd ?b))\<lparr>state := AP_FAILED\<rparr>"] W
  obtain ext where ext: "trace ?W = trace ?w1 @ Call ''restore_wifi'' # ext"
      "list_all (\<lambda>a. \<not> fatal_action a) ext"
    by auto
  have ubl: "unharmed_but_last e w ?w1"
    by (rule start_ap_body_unharmed(2)) simp
  show "\<forall>t\<in>{now w..<now ?W}. failed_fatal_step e (trace ?W ! t) t
           \<longrightarrow> trace ?W ! Suc t = Call ''restore_wifi''"
  proof (intro ballI impI)
    fix t
    assume t: "t \<in> {now w..<now ?W}" and ft: "failed_fatal_step e (trace ?W ! t) t"
    show "trace ?W ! Suc t = Call ''restore_wifi''"
    proof (cases "t < now ?w1")
      case True
      then have "trace ?W ! t = trace ?w1 ! t"
        using ext(1) by (simp add: now_def nth_append)
      with ft t True ubl have "Suc t = now ?w1"
        by (simp add: unharmed_but_last_def)
      then show ?thesis using ext(1) by (simp add: now_def nth_append)
    next
      case False
      have "\<not> fatal_action (trace ?W ! t)"
      proof (cases "t = now ?w1")
        case True
        then show ?thesis using ext(1) by (simp add: now_def nth_append)
      next
        case False
        with \<open>\<not> t < now ?w1\<close> have gt: "now ?w1 < t" by simp
        then have "trace ?W ! t = ext ! (t - now ?w1 - 1)"
          using ext(1) by (simp add: now_def nth_append nth_Cons')
        moreover have "now ?W = now ?w1 + 1 + length ext"
          unfolding now_def ext(1) by simp
        then have "t - now ?w1 - 1 < length ext"
          using t gt by auto
        ultimately show ?thesis using ext(2) by (simp add: list_all_length)
      qed
      with ft show ?thesis using failed_is_fatal by blast
    qed
  qed
qed

lemma fatal_failure_fails_start_ap:
  assumes "fatal_step_fails e w (fst (snd (start_ap e w ap)))"
  shows "\<not> fst (start_ap e w ap)"
proof
  assume "fst (start_ap e w ap)"
  from start_ap_true_unharmed[OF unharmed_refl this] assms show False
    by (simp add: unharmed_def)
qed

lemma ensure_camera_frame [simp]:
  "ap_manager (snd (snd (ensure_camera e w s))) = ap_manager s"
  "stream_state (snd (snd (ensure_camera e w s))) = stream_state s"
  "mjpeg_server (snd (snd (ensure_camera e w s))) = mjpeg_server s"
  "audio_server (snd (snd (ensure_camera e w s))) = audio_server s"
  by (simp_all add: ensure_camera_def split: option.splits)

lemma broadcaster_start_action_simps [simp]:
  "\<not> broadcaster_start_action (Transition x y)" "\<not> broadcaster_start_action (Notify x)"
  "\<not> broadcaster_start_action CameraStart" "\<not> broadcaster_start_action (Call c)"
  "\<not> broadcaster_start_action Now"
  "network_action a \<Longrightarrow> \<not> broadcaster_start_action a"
  "teardown_action a \<Longrightarrow> \<not> broadcaster_start_action a"
  by (auto simp: broadcaster_start_action_def network_action_def system_action_def
                 teardown_action_def)

lemma cleanup_never_starts:
  "video_is_running (mjpeg_server (snd (snd (cleanup e w s))))
     \<Longrightarrow> video_is_running (mjpeg_server s)"
  "audio_is_running (audio_server (snd (snd (cleanup e w s))))
     \<Longrightarrow> audio_is_running (audio_server s)"
  by (auto simp: cleanup_def cleanup_network_def mjpeg_stop_def audio_stop_def split_beta Let_def
           split: option.splits if_splits)

lemma cleanup_inactive_appends:
  assumes "\<not> is_ap_active (ap_manager s)" "appends P w0 w" "P (Call ''_cleanup'')"
    "\<forall>a. teardown_action a \<longrightarrow> P a"
  shows "appends P w0 (fst (snd (cleanup e w s)))"
  using assms
  by (simp add: cleanup_def cleanup_network_def split_beta Let_def split: option.splits)

lemma failed_start_ap_inactive:
  assumes "\<not> fst (start_ap e w ap)"
  shows "\<not> is_ap_active (snd (snd (start_ap e w ap)))"
  using start_ap_false(3)[OF assms]
  by (simp add: is_ap_active_def restore_wifi_state)

lemma start_streaming_body_fatal:
  assumes u: "unharmed e w0 w"
    and n: "\<not> unharmed e w0 (fst (snd (start_streaming_body e w s)))"
  shows "fst (start_streaming_body e w s) \<noteq> None"
    and "appends (\<lambda>a. \<not> broadcaster_start_action a) w (fst (snd (start_streaming_body e w s)))"
    and "stream_state (snd (snd (start_streaming_body e w s))) = stream_state s"
    and "mjpeg_server (snd (snd (start_streaming_body e w s))) = mjpeg_server s"
    and "audio_server (snd (snd (start_streaming_body e w s))) = audio_server s"
    and "\<not> is_ap_active (ap_manager (snd (snd (start_streaming_body e w s))))"
    and "occ (Call ''restore_wifi'') (fst (snd (start_streaming_body e w s)))
           = occ (Call ''restore_wifi'') w + 1"
proof -
  let ?B = "start_streaming_body e w s"
  let ?c = "ensure_camera e w s"
  let ?v = "save_wifi_credentials e (fst (snd ?c)) (ap_manager (snd (snd ?c)))"
  let ?a = "start_ap e (fst (snd ?v)) (snd (snd ?v))"
  have uc: "unharmed e w0 (fst (snd ?c))"
    by (rule appends_unharmed[OF u]) simp
  have uv: "unharmed e w0 (fst (snd ?v))"
    by (rule appends_unharmed[OF uc]) (rule save_wifi_credentials_nonfatal[OF appends_refl])
  have c: "fst ?c = None"
  proof (rule ccontr)
    assume "fst ?c \<noteq> None"
    then have "fst (snd ?B) = fst (snd ?c)"
      by (auto simp: start_streaming_body_def split_beta split: option.splits)
    with uc n show False by simp
  qed
  have v: "fst ?v"
  proof (rule ccontr)
    assume "\<not> fst ?v"
    with c have "fst (snd ?B) = fst (snd ?v)"
      by (simp add: start_streaming_body_def split_beta)
    with uv n show False by simp
  qed
  have a: "\<not> fst ?a"
  proof
    assume t: "fst ?a"
    let ?s3 = "(snd (snd ?c))\<lparr>ap_manager := snd (snd ?a)\<rparr>"
    from c v t have "?B = start_servers e (fst (snd ?a)) ?s3"
      by (simp add: start_streaming_body_def split_beta)
    moreover have "unharmed e w0 (fst (snd ?a))"
      by (rule start_ap_true_unharmed[OF uv t])
    then have "unharmed e w0 (fst (snd (start_servers e (fst (snd ?a)) ?s3)))"
      by (rule appends_unharmed) (rule start_servers_nonfatal[OF appends_refl])
    ultimately show False using n by simp
  qed
  from c v a have B: "?B = (Some ''Failed to start AP mode'', fst (snd ?a),
                           (snd (snd ?c))\<lparr>ap_manager := snd (snd ?a)\<rparr>)"
    by (simp add: start_streaming_body_def split_beta)
  show "fst ?B \<noteq> None" by (simp add: B)
  show "appends (\<lambda>a. \<not> broadcaster_start_action a) w (fst (snd ?B))"
    unfolding B by simp
  show "stream_state (snd (snd ?B)) = stream_state s" unfolding B by simp
  show "mjpeg_server (snd (snd ?B)) = mjpeg_server s" unfolding B by simp
  show "audio_server (snd (snd ?B)) = audio_server s" unfolding B by simp
  show "\<not> is_ap_active (ap_manager (snd (snd ?B)))"
    unfolding B using failed_start_ap_inactive[OF a] by simp
  have "\<forall>a. system_action a \<longrightarrow> a \<noteq> Call ''restore_wifi''"
    by auto
  then have "appends (\<lambda>a. a \<noteq> Call ''restore_wifi'') w (fst (snd ?v))"
    by simp
  then have "occ (Call ''restore_wifi'') (fst (snd ?v)) = occ (Call ''restore_wifi'') w"
    by (rule appends_occ) simp
  with failed_start_ap(3)[OF a]
  show "occ (Call ''restore_wifi'') (fst (snd ?B)) = occ (Call ''restore_wifi'') w + 1"
    unfolding B by simp
qed

lemma start_streaming_body_unharmed:
  assumes "unharmed e w0 w" "fst (start_streaming_body e w s) = None"
  shows "unharmed e w0 (fst (snd (start_streaming_body e w s)))"
  using start_streaming_body_fatal(1)[OF assms(1), of s] assms(2) by blast

text \<open>
  Claim C3.  Let a fatal step of \<^verbatim>\<open>start_ap\<close> fail at the time it is performed, whether
  or not it would fail at another time.  Then \<^verbatim>\<open>start_ap\<close> returns \<open>False\<close>; the action
  that follows the failed step is the entry into \<^verbatim>\<open>restore_wifi\<close>, which is called once;
  while \<^verbatim>\<open>restore_wifi\<close> runs (up to its last \<^verbatim>\<open>await\<close>) the manager is in \<open>AP_FAILED\<close>,
  and what \<^verbatim>\<open>start_ap\<close> leaves behind is that manager with the state that
  \<^verbatim>\<open>restore_wifi\<close> assigns last.  When the step fails during a start request, the request
  does not succeed and ends in state \<open>ERROR\<close>; \<^verbatim>\<open>restore_wifi\<close> was called once, no
  action that starts the video or the audio broadcaster is performed, and neither is
  running afterwards unless it was before.
\<close>

theorem fatal_ap_step_fails_the_start:
  "(fatal_step_fails e w (fst (snd (start_ap e w ap))) \<longrightarrow>
        \<not> fst (start_ap e w ap)
      \<and> state (snd (snd (start_ap_run e w ap))) = AP_FAILED
      \<and> start_ap e w ap
          = (False, fst (snd (start_ap_run e w ap)),
             (snd (snd (start_ap_run e w ap)))\<lparr>state := snd (fst (start_ap_run e w ap))\<rparr>)
      \<and> occ (Call ''restore_wifi'') (fst (snd (start_ap e w ap)))
          = occ (Call ''restore_wifi'') w + 1
      \<and> (\<forall>t\<in>{now w..<now (fst (snd (start_ap e w ap)))}.
            failed_fatal_step e (trace (fst (snd (start_ap e w ap))) ! t) t
            \<longrightarrow> trace (fst (snd (start_ap e w ap))) ! Suc t = Call ''restore_wifi''))
   \<and> (fatal_step_fails e w (fst (snd (start_streaming e w s))) \<longrightarrow>
        fst (start_streaming e w s) \<noteq> Inr True
      \<and> stream_state (snd (snd (start_streaming e w s))) = ERROR
      \<and> occ (Call ''restore_wifi'') (fst (snd (start_streaming e w s)))
          = occ (Call ''restore_wifi'') w + 1
      \<and> (\<forall>a. broadcaster_start_action a
            \<longrightarrow> occ a (fst (snd (start_streaming e w s))) = occ a w)
      \<and> (video_is_running (mjpeg_server (snd (snd (start_streaming e w s))))
            \<longrightarrow> video_is_running (mjpeg_server s))
      \<and> (audio_is_running (audio_server (snd (snd (start_streaming e w s))))
            \<longrightarrow> audio_is_running (audio_server s)))"
proof (intro conjI impI)
  assume F: "fatal_step_fails e w (fst (snd (start_ap e w ap)))"
  note a = fatal_failure_fails_start_ap[OF F]
  show "\<not> fst (start_ap e w ap)" by (rule a)
  show "state (snd (snd (start_ap_run e w ap))) = AP_FAILED"
    by (rule failed_start_ap(1)[OF a])
  show "start_ap e w ap
          = (False, fst (snd (start_ap_run e w ap)),
             (snd (snd (start_ap_run e w ap)))\<lparr>state := snd (fst (start_ap_run e w ap))\<rparr>)"
    by (rule failed_start_ap(2)[OF a])
  show "occ (Call ''restore_wifi'') (fst (snd (start_ap e w ap)))
          = occ (Call ''restore_wifi'') w + 1"
    by (rule failed_start_ap(3)[OF a])
  show "\<forall>t\<in>{now w..<now (fst (snd (start_ap e w ap)))}.
            failed_fatal_step e (trace (fst (snd (start_ap e w ap))) ! t) t
            \<longrightarrow> trace (fst (snd (start_ap e w ap))) ! Suc t = Call ''restore_wifi''"
    by (rule failed_start_ap(4)[OF a])
next
  assume F: "fatal_step_fails e w (fst (snd (start_streaming e w s)))"
  let ?W = "fst (snd (start_streaming e w s))"
  have nu: "\<not> unharmed e w ?W" using F by (simp add: unharmed_def)
  have g: "stream_state s = IDLE \<or> stream_state s = ERROR"
  proof (rule ccontr)
    assume "\<not> (stream_state s = IDLE \<or> stream_state s = ERROR)"
    then have "?W = w" by (simp add: start_streaming_def)
    with nu show False by simp
  qed
  let ?w1 = "fst (set_state PREPARING w s)"
  let ?s1 = "(snd (set_state PREPARING w s))\<lparr>error_message := []\<rparr>"
  let ?b = "start_streaming_body e ?w1 ?s1"
  have u1: "unharmed e w ?w1"
    by (rule appends_unharmed[OF unharmed_refl]) simp
  have some: "fst ?b \<noteq> None"
  proof
    assume n: "fst ?b = None"
    with g have "start_streaming e w s = (Inr True, snd ?b)"
      by (auto simp: start_streaming_def split_beta)
    with start_streaming_body_unharmed[OF u1 n] nu show False by simp
  qed
  then obtain msg where msg: "fst ?b = Some msg" by auto
  let ?s2 = "(snd (snd ?b))\<lparr>error_message := msg\<rparr>"
  let ?w3 = "fst (set_state ERROR (fst (snd ?b)) ?s2)"
  let ?s3 = "snd (set_state ERROR (fst (snd ?b)) ?s2)"
  let ?c = "cleanup e ?w3 ?s3"
  have eq: "start_streaming e w s
      = ((case fst ?c of Some m \<Rightarrow> Inl m | None \<Rightarrow> Inr False), snd ?c)"
    using g msg by (auto simp: start_streaming_def split_beta split: option.splits)
  have ws: "?W = fst (snd ?c)" by (simp add: eq)
  have nb: "\<not> unharmed e w (fst (snd ?b))"
  proof
    assume ub: "unharmed e w (fst (snd ?b))"
    have "unharmed e w ?w3"
      by (rule appends_unharmed[OF ub]) simp
    then have "unharmed e w (fst (snd ?c))"
      by (rule appends_unharmed) (rule cleanup_nonfatal[OF appends_refl])
    with nu ws show False by simp
  qed
  note b = start_streaming_body_fatal[OF u1 nb]
  show "fst (start_streaming e w s) \<noteq> Inr True"
    by (simp add: eq split: option.splits)
  show "stream_state (snd (snd (start_streaming e w s))) = ERROR"
    by (simp add: eq)
  have w1: "appends (\<lambda>a. \<not> broadcaster_start_action a) w ?w1" by simp
  have w2: "appends (\<lambda>a. \<not> broadcaster_start_action a) w (fst (snd ?b))"
    using w1 b(2) by (rule appends_trans)
  have "appends (\<lambda>a. \<not> broadcaster_start_action a) w (fst (snd ?c))"
    using w2 by simp
  then show "\<forall>a. broadcaster_start_action a \<longrightarrow> occ a ?W = occ a w"
    unfolding ws by (auto intro: appends_occ)
  have ia: "\<not> is_ap_active (ap_manager ?s3)" using b(6) by simp
  have "appends (\<lambda>a. a \<noteq> Call ''restore_wifi'') (fst (snd ?b)) ?w3" by simp
  then have "appends (\<lambda>a. a \<noteq> Call ''restore_wifi'') (fst (snd ?b)) (fst (snd ?c))"
    by (rule cleanup_inactive_appends[OF ia]) auto
  then have "occ (Call ''restore_wifi'') (fst (snd ?c)) = occ (Call ''restore_wifi'') (fst (snd ?b))"
    by (rule appends_occ) simp
  moreover have "occ (Call ''restore_wifi'') ?w1 = occ (Call ''restore_wifi'') w"
    by (rule appends_occ[where P="\<lambda>a. a \<noteq> Call ''restore_wifi''"]) simp_all
  ultimately show "occ (Call ''restore_wifi'') ?W = occ (Call ''restore_wifi'') w + 1"
    using b(7) ws by simp
  {
    assume "video_is_running (mjpeg_server (snd (snd (start_streaming e w s))))"
    then have "video_is_running (mjpeg_server (snd (snd ?c)))"
      by (simp add: eq)
    then have "video_is_running (mjpeg_server ?s3)"
      by (rule cleanup_never_starts(1))
    then show "video_is_running (mjpeg_server s)" using b(4) by simp
  }
  {
    assume "audio_is_running (audio_server (snd (snd (start_streaming e w s))))"
    then have "audio_is_running (audio_server (snd (snd ?c)))"
      by (simp add: eq)
    then have "audio_is_running (audio_server ?s3)"
      by (rule cleanup_never_starts(2))
    then show "audio_is_running (audio_server s)" using b(5) by simp
  }
qed

theorem fatal_ap_step_fails_the_start_witness:
  "fatal_step_fails flaky_hostapd_env empty_world
     (fst (snd (start_ap flaky_hostapd_env empty_world (new_ap_manager flaky_hostapd_env))))
   \<and> \<not> fst (start_ap flaky_hostapd_env empty_world (new_ap_manager flaky_hostapd_env))
   \<and> state (snd (snd (start_ap_run flaky_hostapd_env empty_world
                         (new_ap_manager flaky_hostapd_env)))) = AP_FAILED
   \<and> state (snd (snd (start_ap flaky_hostapd_env empty_world
                         (new_ap_manager flaky_hostapd_env)))) = CLIENT_MODE
   \<and> trace (fst (snd (start_ap flaky_hostapd_env empty_world
                         (new_ap_manager flaky_hostapd_env)))) ! 14 = Cmd hostapd_cmd
   \<and> trace (fst (snd (start_ap flaky_hostapd_env empty_world
                         (new_ap_manager flaky_hostapd_env)))) ! 15 = Call ''restore_wifi''
   \<and> fatal_step_fails flaky_hostapd_env empty_world
       (fst (snd (start_streaming flaky_hostapd_env empty_world
                    (fresh_service flaky_hostapd_env))))
   \<and> stream_state (snd (snd (start_streaming flaky_hostapd_env empty_world
                                 (fresh_service flaky_hostapd_env)))) = ERROR
   \<and> occ (SiteStart VideoSite)
       (fst (snd (start_streaming flaky_hostapd_env empty_world
                    (fresh_service flaky_hostapd_env)))) = 0"
proof -
  let ?e = flaky_hostapd_env
  let ?A = "start_ap ?e empty_world (new_ap_manager ?e)"
  let ?S = "start_streaming ?e empty_world (fresh_service ?e)"
  have "(case ?A of (ok, w, ap) \<Rightarrow> (trace w ! 14, 14 < now w, state ap))
          = (Cmd hostapd_cmd, True, CLIENT_MODE)"
    by code_simp
  then have ta: "trace (fst (snd ?A)) ! 14 = Cmd hostapd_cmd" "14 < now (fst (snd ?A))"
    "state (snd (snd ?A)) = CLIENT_MODE"
    by (simp_all add: split_beta)
  have "(case ?S of (ok, w, s) \<Rightarrow> (trace w ! 19, 19 < now w)) = (Cmd hostapd_cmd, True)"
    by code_simp
  then have ts: "trace (fst (snd ?S)) ! 19 = Cmd hostapd_cmd" "19 < now (fst (snd ?S))"
    by (simp_all add: split_beta)
  have fl: "\<not> launches (proc ?e hostapd_cmd 14)" "\<not> launches (proc ?e hostapd_cmd 19)"
    by (simp_all add: flaky_hostapd_env_def launches_def)
  have z: "now empty_world = 0" "occ a empty_world = 0" for a
    by (simp_all add: now_def occ_def empty_world_def)
  have fa: "fatal_step_fails ?e empty_world (fst (snd ?A))"
    unfolding fatal_step_fails_def
    by (rule bexI[of _ 14]) (use ta fl z in simp_all)
  have fs: "fatal_step_fails ?e empty_world (fst (snd ?S))"
    unfolding fatal_step_fails_def
    by (rule bexI[of _ 19]) (use ts fl z in simp_all)
  note th = fatal_ap_step_fails_the_start[of ?e empty_world "new_ap_manager ?e"
              "fresh_service ?e"]
  from th fa have A: "\<not> fst ?A"
    "state (snd (snd (start_ap_run ?e empty_world (new_ap_manager ?e)))) = AP_FAILED"
    "\<forall>t\<in>{now empty_world..<now (fst (snd ?A))}.
        failed_fatal_step ?e (trace (fst (snd ?A)) ! t) t
        \<longrightarrow> trace (fst (snd ?A)) ! Suc t = Call ''restore_wifi''"
    by blast+
  from th fs have S: "stream_state (snd (snd ?S)) = ERROR"
    "\<forall>a. broadcaster_start_action a \<longrightarrow> occ a (fst (snd ?S)) = occ a empty_world"
    by blast+
  have "14 \<in> {now empty_world..<now (fst (snd ?A))}" using ta(2) z by simp
  moreover have "failed_fatal_step ?e (trace (fst (snd ?A)) ! 14) 14" using ta fl by simp
  ultimately have n: "trace (fst (snd ?A)) ! 15 = Call ''restore_wifi''"
    using A(3) by fastforce
  have "broadcaster_start_action (SiteStart VideoSite)"
    by (simp add: broadcaster_start_action_def)
  with S(2) z have o: "occ (SiteStart VideoSite) (fst (snd ?S)) = 0" by simp
  from fa fs A(1,2) ta n S(1) o show ?thesis by simp
qed

subsection \<open>Milestones of a session\<close>

lemma milestone_simps [simp]:
  "milestone (Transition x y)" "milestone (Call ''_cleanup'')"
  "\<not> milestone (Notify x)" "\<not> milestone CameraStart" "\<not> milestone Now" "\<not> milestone Sleep"
  "\<not> milestone (CreateTask k)" "\<not> milestone (CancelTask k)"
  "\<not> milestone (RunnerSetup z)" "\<not> milestone (SiteStart z)"
  "network_action a \<Longrightarrow> \<not> milestone a"
  "teardown_action a \<Longrightarrow> \<not> milestone a"
  "broadcaster_start_action a \<Longrightarrow> \<not> milestone a"
  by (auto simp: milestone_def network_action_def system_action_def teardown_action_def
                 broadcaster_start_action_def split: action.splits)

lemma milestones_perform [simp]:
  "milestones (perform a w) = milestones w @ (if milestone a then [a] else [])"
  by (simp add: milestones_def)

lemma appends_milestones:
  "appends (\<lambda>a. \<not> milestone a) w w' \<Longrightarrow> milestones w' = milestones w"
  by (auto simp: appends_def milestones_def list_all_iff filter_empty_conv)

lemma low_level_milestones [simp]:
  "milestones (fst (snd (ensure_camera e w s))) = milestones w"
  "milestones (fst (snd (save_wifi_credentials e w ap))) = milestones w"
  "milestones (fst (snd (start_ap e w ap))) = milestones w"
  "milestones (fst (snd (stop_ap e w ap))) = milestones w"
  "milestones (fst (snd (restore_wifi e w ap))) = milestones w"
  "milestones (fst (snd (portal_start e w p))) = milestones w"
  "milestones (fst (portal_stop e w p)) = milestones w"
  "milestones (fst (snd (mjpeg_start e w cam v))) = milestones w"
  "milestones (fst (snd (mjpeg_stop e w v))) = milestones w"
  "milestones (fst (snd (audio_start e w au))) = milestones w"
  "milestones (fst (snd (audio_stop e w au))) = milestones w"
  "milestones (fst (cleanup_network e w s)) = milestones w"
  "milestones (fst (start_monitoring w s)) = milestones w"
  "milestones (fst (stop_monitoring w s)) = milestones w"
  by (rule appends_milestones, simp)+

lemma set_state_milestones [simp]:
  "milestones (fst (set_state x w s))
     = milestones w @ (if x \<noteq> stream_state s then [Transition (stream_state s) x] else [])"
  by (simp add: set_state_def Let_def)

lemma cleanup_milestones [simp]:
  "milestones (fst (snd (cleanup e w s))) = milestones w @ [Call ''_cleanup'']"
  by (simp add: cleanup_def split_beta Let_def split: option.splits)

lemma start_servers_milestones:
  "milestones (fst (snd (start_servers e w s)))
     = milestones w @ (if fst (start_servers e w s) = None \<and> stream_state s \<noteq> READY
                       then [Transition (stream_state s) READY] else [])"
  by (simp add: start_servers_def split_beta Let_def split: sum.splits bool.splits)

lemma start_servers_state:
  "fst (start_servers e w s) \<noteq> None
     \<Longrightarrow> stream_state (snd (snd (start_servers e w s))) = stream_state s"
  by (simp add: start_servers_def split_beta Let_def split: sum.splits bool.splits)

lemma start_servers_ready:
  "fst (start_servers e w s) = None
     \<Longrightarrow> stream_state (snd (snd (start_servers e w s))) = READY"
  by (simp add: start_servers_def start_monitoring_def split_beta Let_def
           split: sum.splits bool.splits)

lemma start_streaming_body_milestones:
  "milestones (fst (snd (start_streaming_body e w s)))
     = milestones w @ (if fst (start_streaming_body e w s) = None \<and> stream_state s \<noteq> READY
                       then [Transition (stream_state s) READY] else [])"
  by (simp add: start_streaming_body_def start_servers_milestones split_beta
           split: option.splits bool.splits)

lemma start_streaming_body_state:
  "fst (start_streaming_body e w s) \<noteq> None
     \<Longrightarrow> stream_state (snd (snd (start_streaming_body e w s))) = stream_state s"
  by (simp add: start_streaming_body_def start_servers_state split_beta
           split: option.splits bool.splits)

lemma start_streaming_body_ready:
  "fst (start_streaming_body e w s) = None
     \<Longrightarrow> stream_state (snd (snd (start_streaming_body e w s))) = READY"
  by (simp add: start_streaming_body_def start_servers_ready split_beta
           split: option.splits bool.splits)

lemma start_streaming_milestones:
  assumes "stream_state s = IDLE \<or> stream_state s = ERROR"
  shows "milestones (fst (snd (start_streaming e w s)))
           = milestones w @
             (if fst (start_streaming e w s) = Inr True
              then [Transition (stream_state s) PREPARING, Transition PREPARING READY]
              else [Transition (stream_state s) PREPARING, Transition PREPARING ERROR,
                    Call ''_cleanup''])"
proof -
  let ?w1 = "fst (set_state PREPARING w s)"
  let ?s1 = "(snd (set_state PREPARING w s))\<lparr>error_message := []\<rparr>"
  let ?b = "start_streaming_body e ?w1 ?s1"
  have s1: "stream_state ?s1 = PREPARING" by simp
  have m1: "milestones ?w1 = milestones w @ [Transition (stream_state s) PREPARING]"
    using assms by auto
  show ?thesis
  proof (cases "fst ?b")
    case None
    then have "start_streaming e w s = (Inr True, snd ?b)"
      using assms by (auto simp: start_streaming_def split_beta)
    then show ?thesis
      using None s1 m1 by (simp add: start_streaming_body_milestones)
  next
    case (Some msg)
    let ?s2 = "(snd (snd ?b))\<lparr>error_message := msg\<rparr>"
    let ?c = "cleanup e (fst (set_state ERROR (fst (snd ?b)) ?s2))
                        (snd (set_state ERROR (fst (snd ?b)) ?s2))"
    have eq: "start_streaming e w s
        = ((case fst ?c of Some m \<Rightarrow> Inl m | None \<Rightarrow> Inr False), snd ?c)"
      using assms Some by (auto simp: start_streaming_def split_beta split: option.splits)
    have st: "stream_state ?s2 = PREPARING"
      using start_streaming_body_state[of e ?w1 ?s1] Some s1 by simp
    have nt: "fst (start_streaming e w s) \<noteq> Inr True"
      by (simp add: eq split: option.splits)
    have "milestones (fst (snd ?c))
            = milestones w @ [Transition (stream_state s) PREPARING, Transition PREPARING ERROR,
                              Call ''_cleanup'']"
      using Some s1 m1 st by (simp add: start_streaming_body_milestones)
    with nt show ?thesis by (simp add: eq)
  qed
qed

lemma stop_streaming_milestones:
  assumes "stream_state s \<noteq> IDLE"
  shows "milestones (fst (snd (stop_streaming e w s)))
           = milestones w
             @ (if stream_state s = STOPPING then [] else [Transition (stream_state s) STOPPING])
             @ [Call ''_cleanup'']
             @ (if fst (stop_streaming e w s) = Inr True then [Transition STOPPING IDLE] else [])"
  using assms
  by (simp add: stop_streaming_def split_beta Let_def split: option.splits)



text \<open>
  A start request during which the other tasks do nothing is the start request of the
  sequential model.
\<close>

lemma start_ap_step_undisturbed:
  "(if state ap2 = AP_READY then start_servers e w2 (s1\<lparr>ap_manager := ap2\<rparr>)
    else
      (case start_ap_run e w2 ap2 of
         ((started, final), w3, ap3) \<Rightarrow>
      (case (w3, s1\<lparr>ap_manager := ap3\<rparr>) of
         (w4, s4) \<Rightarrow>
           (let s5 = s4\<lparr>ap_manager := (ap_manager s4)\<lparr>state := final\<rparr>\<rparr> in
            if started then start_servers e w4 s5
            else (Some ''Failed to start AP mode'', w4, s5)))))
   = (case start_ap e w2 ap2 of
        (False, w3, ap3) \<Rightarrow> (Some ''Failed to start AP mode'', w3, s1\<lparr>ap_manager := ap3\<rparr>)
      | (True, w3, ap3) \<Rightarrow> start_servers e w3 (s1\<lparr>ap_manager := ap3\<rparr>))"
proof (cases "state ap2 = AP_READY")
  case True
  then show ?thesis by (simp add: start_ap_def)
next
  case False
  show ?thesis
    by (simp add: False start_ap_by_run[OF False] split_beta Let_def)
qed

lemma start_streaming_body_undisturbed:
  "start_streaming_body_meanwhile (\<lambda>w s. (w, s)) e w s = start_streaming_body e w s"
  unfolding start_streaming_body_meanwhile_def start_streaming_body_def
  by (simp only: start_ap_step_undisturbed)

lemma start_streaming_undisturbed:
  "start_streaming_meanwhile (\<lambda>w s. (w, s)) e w s = start_streaming e w s"
  by (simp add: start_streaming_meanwhile_def start_streaming_def start_streaming_body_undisturbed)


text \<open>
  What holds for a request that no other request overlaps.  A start request
  in state \<open>IDLE\<close> or \<open>ERROR\<close> goes to \<open>PREPARING\<close> and then either to \<open>READY\<close>, without
  \<^verbatim>\<open>_cleanup\<close>, or to \<open>ERROR\<close>, followed by one call of \<^verbatim>\<open>_cleanup\<close>.  A stop request
  outside \<open>IDLE\<close> goes to \<open>STOPPING\<close>, calls \<^verbatim>\<open>_cleanup\<close> once and, when that returns,
  goes to \<open>IDLE\<close>; it never enters \<open>ERROR\<close>.
\<close>

theorem request_alone_enters_error_from_preparing:
  "(stream_state s = IDLE \<or> stream_state s = ERROR \<longrightarrow>
        milestones (fst (snd (start_streaming e w s)))
          = milestones w @
            (if fst (start_streaming e w s) = Inr True
             then [Transition (stream_state s) PREPARING, Transition PREPARING READY]
             else [Transition (stream_state s) PREPARING, Transition PREPARING ERROR,
                   Call ''_cleanup'']))
   \<and> (stream_state s \<noteq> IDLE \<longrightarrow>
        milestones (fst (snd (stop_streaming e w s)))
          = milestones w
            @ (if stream_state s = STOPPING then [] else [Transition (stream_state s) STOPPING])
            @ [Call ''_cleanup'']
            @ (if fst (stop_streaming e w s) = Inr True then [Transition STOPPING IDLE] else []))"
  using start_streaming_milestones[of s e w] stop_streaming_milestones[of s e w]
  by blast

theorem request_alone_enters_error_from_preparing_witness:
  "milestones (fst (snd (start_streaming broken_camera_env empty_world
                           (fresh_service broken_camera_env))))
     = [Transition IDLE PREPARING, Transition PREPARING ERROR, Call ''_cleanup'']"
proof -
  have "fst (start_streaming broken_camera_env empty_world (fresh_service broken_camera_env))
          \<noteq> Inr True"
    by code_simp
  moreover have "stream_state (fresh_service broken_camera_env) = IDLE"
    by (simp add: fresh_service_def new_streaming_service_def)
  moreover have "milestones empty_world = []"
    by (simp add: milestones_def empty_world_def)
  ultimately show ?thesis
    using request_alone_enters_error_from_preparing[of "fresh_service broken_camera_env"
            broken_camera_env empty_world]
    by simp
qed

text \<open>
  Claim C6.  A stop request that is served while a start request is suspended in
  \<^verbatim>\<open>start_ap\<close> makes the start enter \<open>ERROR\<close> from \<open>IDLE\<close>.  The access point daemon does
  not launch, so \<^verbatim>\<open>start_ap\<close> calls \<^verbatim>\<open>restore_wifi\<close>; while the start request waits for
  the last command of \<^verbatim>\<open>restore_wifi\<close>, the stop request finds the state \<open>PREPARING\<close>, no
  server running and no access point active, so it awaits nothing and is served in one
  piece: it goes through \<open>STOPPING\<close> and \<^verbatim>\<open>_cleanup\<close> to \<open>IDLE\<close>.  The start request then
  resumes, \<^verbatim>\<open>start_ap\<close> returns \<open>False\<close>, and the handler of \<^verbatim>\<open>start_streaming\<close> assigns
  \<open>ERROR\<close> while the state is \<open>IDLE\<close> and calls \<^verbatim>\<open>_cleanup\<close> a second time.  The end of
  the trace shows the three actions of the stop request between the last command of
  \<^verbatim>\<open>restore_wifi\<close> and the transition into \<open>ERROR\<close>.
\<close>

theorem stop_during_start_enters_error_from_idle:
  "milestones (fst (snd (start_streaming_meanwhile (stop_request no_hostapd_env)
                           no_hostapd_env empty_world (fresh_service no_hostapd_env))))
     = [Transition IDLE PREPARING, Transition PREPARING STOPPING, Call ''_cleanup'',
        Transition STOPPING IDLE, Transition IDLE ERROR, Call ''_cleanup'']
   \<and> fst (start_streaming_meanwhile (stop_request no_hostapd_env)
            no_hostapd_env empty_world (fresh_service no_hostapd_env)) = Inr False
   \<and> stream_state (snd (snd (start_streaming_meanwhile (stop_request no_hostapd_env)
                                 no_hostapd_env empty_world (fresh_service no_hostapd_env))))
     = ERROR
   \<and> drop 27 (trace (fst (snd (start_streaming_meanwhile (stop_request no_hostapd_env)
                                  no_hostapd_env empty_world (fresh_service no_hostapd_env)))))
     = [Cmd ''sudo dhclient wlan0'', Sleep, Cmd verify_cmd,
        Transition PREPARING STOPPING, Call ''_cleanup'', Transition STOPPING IDLE,
        Transition IDLE ERROR, Call ''_cleanup'']"
  by code_simp

end
